theory Spec2Isabelle
  imports
    Main
    "HOL-Library.Sublist"
    "HOL-Library.Char_ord"
    "HOL-Library.List_Lexorder"
    "HOL-Library.Multiset"
begin

section \<open>Strings and paths\<close>

text \<open>
  A Python \<open>str\<close> is modelled by its UTF-8 encoding, a \<open>string\<close> of 8-bit characters.
  Every string operation of \<open>scanner.py\<close> (\<open>in\<close>, \<open>startswith\<close>, \<open>endswith\<close>,
  \<open>rfind\<close>, \<open>lstrip\<close>, \<open>replace\<close>, \<open>split\<close>, \<open>join\<close>, comparison) gives the same
  answer on the encoding as on the code points, because UTF-8 is self-synchronising and keeps the
  order of code points.

  A \<open>pathlib.Path\<close> is modelled by its \<open>parts\<close>: the list of its components, with the
  root in front when the path is absolute (POSIX flavour, CPython 3.11). The root is the
  component \<open>''/''\<close>, or \<open>''//''\<close> for a path written with exactly two leading slashes.
\<close>

type_synonym path = "string list"

fun join :: "string \<Rightarrow> string list \<Rightarrow> string" where
  "join sep [] = []"
| "join sep [x] = x"
| "join sep (x # y # ys) = x @ sep @ join sep (y # ys)"

text \<open>\<open>pat in s\<close> for strings: \<open>pat\<close> occurs as a contiguous run of \<open>s\<close>.\<close>

fun contains :: "string \<Rightarrow> string \<Rightarrow> bool" where
  "contains pat [] = (pat = [])"
| "contains pat (c # cs) = (prefix pat (c # cs) \<or> contains pat cs)"

definition startswith :: "string \<Rightarrow> string \<Rightarrow> bool" where
  "startswith s pre = prefix pre s"

definition endswith :: "string \<Rightarrow> string \<Rightarrow> bool" where
  "endswith s suf = prefix (rev suf) (rev s)"

text \<open>\<open>s.rfind(c)\<close>: the index of the last occurrence of \<open>c\<close>, or \<open>-1\<close>.\<close>

definition rfind :: "string \<Rightarrow> char \<Rightarrow> int" where
  "rfind s c =
     (if c \<in> set s
      then int (length s) - 1 - int (length (takeWhile (\<lambda>x. x \<noteq> c) (rev s)))
      else - 1)"

text \<open>\<open>s.lstrip('.')\<close>.\<close>

definition lstrip_dot :: "string \<Rightarrow> string" where
  "lstrip_dot s = dropWhile (\<lambda>x. x = CHR ''.'') s"

definition is_absolute :: "path \<Rightarrow> bool" where
  "is_absolute p = (case p of [] \<Rightarrow> False | x # _ \<Rightarrow> x = ''/'' \<or> x = ''//'')"

text \<open>\<open>PurePath.name\<close>: the final component, empty for \<open>/\<close> and for the empty path.\<close>

definition path_name :: "path \<Rightarrow> string" where
  "path_name p = (if length p = (if is_absolute p then 1 else 0) then [] else last p)"

text \<open>\<open>PurePath.suffix\<close>.\<close>

definition path_suffix :: "path \<Rightarrow> string" where
  "path_suffix p =
     (let name = path_name p; i = rfind name CHR ''.''
      in if 0 < i \<and> i < int (length name) - 1 then drop (nat i) name else [])"

text \<open>\<open>str(path)\<close>: the root, then the other components joined by \<open>/\<close>.\<close>

definition str_path :: "path \<Rightarrow> string" where
  "str_path p =
     (case p of
        [] \<Rightarrow> ''.''
      | x # xs \<Rightarrow>
          if x = ''/'' \<or> x = ''//'' then x @ join ''/'' xs else join ''/'' (x # xs))"

text \<open>
  \<open>path.relative_to(other)\<close>; \<open>None\<close> stands for the \<open>ValueError\<close> raised when \<open>path\<close>
  is not below \<open>other\<close>, or when one of the two is absolute and the other is not.
\<close>

definition relative_to :: "path \<Rightarrow> path \<Rightarrow> path option" where
  "relative_to p other =
     (if other = [] then (if is_absolute p then None else Some p)
      else if prefix other p then Some (drop (length other) p)
      else None)"

section \<open>The scanner and its file filter\<close>

text \<open>
  The fields of \<open>CodeScanner\<close>. The compiled \<open>pathspec.PathSpec\<close> is kept as the list of
  pattern lines it was compiled from; \<open>pathspec\<close> is a third-party library, so its
  \<open>match_file\<close> is a parameter \<open>mf\<close> of every function that consults it:
  \<open>mf lines key\<close> is \<open>PathSpec.from_lines('gitwildmatch', lines).match_file(key)\<close>.
\<close>

record scanner =
  extensions :: "string set"
  exclude_patterns :: "string set"
  exclude_extensions :: "string set"
  no_structure :: bool
  gitspec :: "string list option"
  base_dir :: "path option"

type_synonym matcher = "string list \<Rightarrow> string \<Rightarrow> bool"

text \<open>The string handed to \<open>match_file\<close> (lines 53 to 59 and 87 to 93 of the source).\<close>

definition match_key :: "path \<Rightarrow> path \<Rightarrow> string" where
  "match_key b file_path =
     (case relative_to file_path b of
        Some rel_path \<Rightarrow> str_path rel_path
      | None \<Rightarrow> str_path file_path)"

definition should_include_file :: "matcher \<Rightarrow> scanner \<Rightarrow> path \<Rightarrow> bool" where
  "should_include_file mf s file_path =
     (if (case gitspec s of
            None \<Rightarrow> False
          | Some spec \<Rightarrow>
              (case base_dir s of
                 None \<Rightarrow> False
               | Some b \<Rightarrow> mf spec (match_key b file_path)))
      then False
      else if lstrip_dot (path_suffix file_path) \<notin> extensions s then False
      else if \<exists>pattern \<in> exclude_patterns s. contains pattern (str_path file_path) then False
      else if \<exists>ext_pattern \<in> exclude_extensions s. endswith (str_path file_path) ext_pattern
      then False
      else True)"

section \<open>The file system\<close>

text \<open>
  A file system is a tree of regular files (name and bytes) and directories (name, whether the
  process may list it, and its entries in the order in which the operating system enumerates
  them), together with the working directory of the process. Symbolic links and special files
  are not modelled. Every directory may be searched and no limit is put on the length of a
  name, so that looking a path up fails in two ways only: a component is missing (\<open>ENOENT\<close>),
  or a component that is not the last one is a regular file (\<open>ENOTDIR\<close>).
\<close>

datatype node = File string string | Dir string bool "node list"

fun node_name :: "node \<Rightarrow> string" where
  "node_name (File n bs) = n"
| "node_name (Dir n listable es) = n"

fun is_file :: "node \<Rightarrow> bool" where
  "is_file (File n bs) = True"
| "is_file (Dir n listable es) = False"

fun is_dir :: "node \<Rightarrow> bool" where
  "is_dir (File n bs) = False"
| "is_dir (Dir n listable es) = True"

record filesystem =
  root_entries :: "node list"
  cwd :: "string list"

text \<open>
  Following a list of names from a node; \<open>ups\<close> holds the directories above the current one,
  nearest first, for the component \<open>..\<close>.
\<close>

fun walk :: "node \<Rightarrow> node list \<Rightarrow> string list \<Rightarrow> node option" where
  "walk cur ups [] = Some cur"
| "walk cur ups (x # xs) =
     (case cur of
        File n bs \<Rightarrow> None
      | Dir n listable es \<Rightarrow>
          if x = ''..'' then (case ups of [] \<Rightarrow> walk cur [] xs | u # us \<Rightarrow> walk u us xs)
          else (case find (\<lambda>e. node_name e = x) es of
                  None \<Rightarrow> None
                | Some e \<Rightarrow> walk e (cur # ups) xs))"

definition lookup :: "filesystem \<Rightarrow> path \<Rightarrow> node option" where
  "lookup fs p =
     walk (Dir ''/'' True (root_entries fs)) []
       (if is_absolute p then tl p else cwd fs @ p)"

text \<open>
  \<open>Path.exists()\<close>, which gives \<open>False\<close> for the two failures above. (It lets every other
  error of \<open>stat\<close> through, such as \<open>ENAMETOOLONG\<close> and \<open>EACCES\<close>; the file systems
  modelled here have neither.)
\<close>

definition path_exists :: "filesystem \<Rightarrow> path \<Rightarrow> bool" where
  "path_exists fs p = (lookup fs p \<noteq> None)"

fun norm_parts :: "string list \<Rightarrow> string list \<Rightarrow> string list" where
  "norm_parts acc [] = rev acc"
| "norm_parts acc (x # xs) =
     (if x = ''..'' then norm_parts (tl acc) xs else norm_parts (x # acc) xs)"

text \<open>\<open>Path.resolve()\<close>: the absolute path with \<open>..\<close> removed (there are no symbolic links).\<close>

definition resolve :: "filesystem \<Rightarrow> path \<Rightarrow> path" where
  "resolve fs p = ''/'' # norm_parts [] (if is_absolute p then tl p else cwd fs @ p)"

text \<open>
  \<open>Path(s)\<close>: the string is cut at every \<open>/\<close>, empty components and \<open>.\<close> are dropped,
  and leading slashes make the path absolute: exactly two of them give the root \<open>//\<close>, any
  other number the root \<open>/\<close>. The operating system reads both roots as the same directory.
\<close>

fun split_on :: "char \<Rightarrow> string \<Rightarrow> string list" where
  "split_on sep [] = [[]]"
| "split_on sep (c # cs) =
     (if c = sep then [] # split_on sep cs
      else (case split_on sep cs of [] \<Rightarrow> [[c]] | x # xs \<Rightarrow> (c # x) # xs))"

definition Path_of :: "string \<Rightarrow> path" where
  "Path_of str =
     (if startswith str ''//'' \<and> \<not> startswith str ''///'' then [''//'']
      else if startswith str ''/'' then [''/'']
      else [])
     @ filter (\<lambda>part. part \<noteq> [] \<and> part \<noteq> ''.'') (split_on CHR ''/'' str)"

subsection \<open>Reading a file as text\<close>

definition continuation :: "char \<Rightarrow> bool" where
  "continuation c = (0x80 \<le> (of_char c :: nat) \<and> (of_char c :: nat) \<le> 0xBF)"

text \<open>The well-formed UTF-8 byte sequences, which are what the strict \<open>utf-8\<close> codec decodes.\<close>

fun valid_utf8 :: "string \<Rightarrow> bool" where
  "valid_utf8 [] = True"
| "valid_utf8 (a # rest) =
     (let x = (of_char a :: nat) in
      if x < 0x80 then valid_utf8 rest
      else if 0xC2 \<le> x \<and> x \<le> 0xDF then
        (case rest of b # r \<Rightarrow> continuation b \<and> valid_utf8 r | _ \<Rightarrow> False)
      else if 0xE0 \<le> x \<and> x \<le> 0xEF then
        (case rest of
           b # c # r \<Rightarrow>
             continuation b \<and> (x = 0xE0 \<longrightarrow> 0xA0 \<le> (of_char b :: nat))
             \<and> (x = 0xED \<longrightarrow> (of_char b :: nat) \<le> 0x9F)
             \<and> continuation c \<and> valid_utf8 r
         | _ \<Rightarrow> False)
      else if 0xF0 \<le> x \<and> x \<le> 0xF4 then
        (case rest of
           b # c # d # r \<Rightarrow>
             continuation b \<and> (x = 0xF0 \<longrightarrow> 0x90 \<le> (of_char b :: nat))
             \<and> (x = 0xF4 \<longrightarrow> (of_char b :: nat) \<le> 0x8F)
             \<and> continuation c \<and> continuation d \<and> valid_utf8 r
         | _ \<Rightarrow> False)
      else False)"

text \<open>
  Text mode with the default \<open>newline=None\<close>: \<open>\r\n\<close> and a lone \<open>\r\<close> are read as
  \<open>\n\<close>.
\<close>

fun universal_newlines :: "string \<Rightarrow> string" where
  "universal_newlines [] = []"
| "universal_newlines (c # cs) =
     (if c = CHR 0x0D then
        (case cs of
           [] \<Rightarrow> [CHR 0x0A]
         | d # ds \<Rightarrow>
             if d = CHR 0x0A then CHR 0x0A # universal_newlines ds
             else CHR 0x0A # universal_newlines cs)
      else c # universal_newlines cs)"

text \<open>
  \<open>open(path, 'r', encoding='utf-8').read()\<close> on a node; \<open>None\<close> stands for the exception
  raised for a directory or for bytes that do not decode.
\<close>

fun read_text :: "node \<Rightarrow> string option" where
  "read_text (File n bs) = (if valid_utf8 bs then Some (universal_newlines bs) else None)"
| "read_text (Dir n listable es) = None"

text \<open>\<open>f.readlines()\<close>: the lines of a text, each with its line end.\<close>

fun readlines :: "string \<Rightarrow> string list" where
  "readlines [] = []"
| "readlines (c # cs) =
     (if c = CHR 0x0A then [c] # readlines cs
      else (case readlines cs of [] \<Rightarrow> [[c]] | x # xs \<Rightarrow> (c # x) # xs))"

text \<open>
  \<open>with open(name, 'r') as f: f.readlines()\<close>, with \<open>None\<close> for any exception (a missing
  file, a directory, bytes that do not decode). The name goes to the operating system as it is
  written: when it ends with \<open>/\<close> or with the component \<open>.\<close> it can only name a directory,
  and opening fails. The encoding of the locale is taken to be UTF-8.
\<close>

definition open_readlines :: "filesystem \<Rightarrow> string \<Rightarrow> string list option" where
  "open_readlines fs name =
     (if last (split_on CHR ''/'' name) = [] \<or> last (split_on CHR ''/'' name) = ''.'' then None
      else
        (case lookup fs (Path_of name) of
           None \<Rightarrow> None
         | Some n \<Rightarrow> (case read_text n of None \<Rightarrow> None | Some txt \<Rightarrow> Some (readlines txt))))"

section \<open>Construction of the scanner\<close>

definition default_extensions :: "string set" where
  "default_extensions = {''py'', ''java'', ''js'', ''cpp'', ''c'', ''h'', ''hpp''}"

text \<open>
  \<open>load_gitignore\<close>. A file that cannot be read only prints a warning, which is not part of
  the model. \<open>if gitignore_files\<close> is false for \<open>None\<close> and for the empty list.
\<close>

definition load_gitignore :: "filesystem \<Rightarrow> scanner \<Rightarrow> string list option \<Rightarrow> scanner" where
  "load_gitignore fs s gitignore_files =
     (let patterns =
        (if gitignore_files \<noteq> None \<and> gitignore_files \<noteq> Some [] then
           concat (map (\<lambda>gitignore_path.
                          case open_readlines fs gitignore_path of
                            Some ls \<Rightarrow> ls
                          | None \<Rightarrow> [])
                       (case gitignore_files of Some gs \<Rightarrow> gs | None \<Rightarrow> []))
         else if path_exists fs (Path_of ''.gitignore'') then
           (case open_readlines fs ''.gitignore'' of Some ls \<Rightarrow> ls | None \<Rightarrow> [])
         else [])
      in if patterns \<noteq> [] then s\<lparr>gitspec := Some patterns\<rparr> else s)"

text \<open>\<open>__init__\<close>; an argument left out, or given as \<open>None\<close>, is \<open>None\<close>.\<close>

definition init ::
  "filesystem \<Rightarrow> string set option \<Rightarrow> string set option \<Rightarrow> string set option
     \<Rightarrow> string list option \<Rightarrow> bool \<Rightarrow> scanner" where
  "init fs exts excl_patterns excl_extensions gitignore_files ignore_gitignore =
     (let s = \<lparr>extensions =
                 (case exts of
                    None \<Rightarrow> default_extensions
                  | Some e \<Rightarrow> if e = {} then default_extensions else e),
               exclude_patterns = (case excl_patterns of None \<Rightarrow> {} | Some e \<Rightarrow> e),
               exclude_extensions = (case excl_extensions of None \<Rightarrow> {} | Some e \<Rightarrow> e),
               no_structure = False,
               gitspec = None,
               base_dir = None\<rparr>
      in if \<not> ignore_gitignore then load_gitignore fs s gitignore_files else s)"

section \<open>The tree walker\<close>

datatype error = ValueError string | NotADirectoryError | TypeError

definition nl :: string where
  "nl = [CHR 0x0A]"

text \<open>\<open>s.split('\n')\<close>.\<close>

definition split_nl :: "string \<Rightarrow> string list" where
  "split_nl s = split_on CHR 0x0A s"

text \<open>\<open>name.replace('*', '\\*').replace('_', '\\_')\<close>.\<close>

definition safe_name :: "string \<Rightarrow> string" where
  "safe_name name =
     concat (map (\<lambda>c. if c = CHR ''*'' \<or> c = CHR ''_'' then [CHR 0x5C, c] else [c]) name)"

text \<open>\<open>"  " * depth\<close>.\<close>

definition indent :: "nat \<Rightarrow> string" where
  "indent depth = concat (replicate depth ''  '')"

text \<open>
  Lines 86 to 93: whether the matcher makes the tree walker skip an item. With a matcher and no
  \<open>base_dir\<close> the call \<open>item.relative_to(None)\<close> raises \<open>TypeError\<close>, which no handler of
  the source catches.
\<close>

definition tree_ignored :: "matcher \<Rightarrow> scanner \<Rightarrow> path \<Rightarrow> error + bool" where
  "tree_ignored mf s item =
     (case gitspec s of
        None \<Rightarrow> Inr False
      | Some spec \<Rightarrow>
          (case base_dir s of
             None \<Rightarrow> Inl TypeError
           | Some b \<Rightarrow> Inr (mf spec (match_key b item))))"

text \<open>
  The lines that the passes of a loop append, in order, up to the first pass that raises.
\<close>

fun collect :: "(error + string list) list \<Rightarrow> error + string list" where
  "collect [] = Inr []"
| "collect (Inl e # rs) = Inl e"
| "collect (Inr ls # rs) = (case collect rs of Inl e \<Rightarrow> Inl e | Inr ms \<Rightarrow> Inr (ls @ ms))"

text \<open>
  \<open>generate_structure\<close> on the directory at \<open>path\<close>, whose node is given. Listing a regular
  file raises \<open>NotADirectoryError\<close>; a directory that may not be listed raises
  \<open>PermissionError\<close>, which the function catches with nothing appended yet.
\<close>

fun generate_structure :: "matcher \<Rightarrow> scanner \<Rightarrow> path \<Rightarrow> node \<Rightarrow> nat \<Rightarrow> error + string" where
  "generate_structure mf s path (File n bs) depth = Inl NotADirectoryError"
| "generate_structure mf s path (Dir n listable es) depth =
     (if \<not> listable then Inr []
      else
        (case collect
                (map (\<lambda>item.
                        if startswith (node_name item) ''.'' then Inr []
                        else
                          (case tree_ignored mf s (path @ [node_name item]) of
                             Inl e \<Rightarrow> Inl e
                           | Inr True \<Rightarrow> Inr []
                           | Inr False \<Rightarrow>
                               if is_dir item then
                                 (case generate_structure mf s (path @ [node_name item]) item
                                         (depth + 1) of
                                    Inl e \<Rightarrow> Inl e
                                  | Inr substructure \<Rightarrow>
                                      if substructure \<noteq> [] then
                                        Inr ((indent depth @ ''* **'' @ safe_name (node_name item)
                                                @ ''/**'')
                                             # split_nl substructure)
                                      else Inr [])
                               else if should_include_file mf s (path @ [node_name item]) then
                                 Inr [indent depth @ ''* '' @ safe_name (node_name item)]
                               else Inr []))
                     (sort_key (\<lambda>e. path @ [node_name e]) es)) of
           Inl e \<Rightarrow> Inl e
         | Inr structure \<Rightarrow> Inr (join nl structure)))"

text \<open>One pass of the loop of \<open>generate_structure\<close>: the lines appended for one item.\<close>

definition item_structure ::
  "matcher \<Rightarrow> scanner \<Rightarrow> path \<Rightarrow> nat \<Rightarrow> node \<Rightarrow> error + string list" where
  "item_structure mf s path depth item =
     (if startswith (node_name item) ''.'' then Inr []
      else
        (case tree_ignored mf s (path @ [node_name item]) of
           Inl e \<Rightarrow> Inl e
         | Inr True \<Rightarrow> Inr []
         | Inr False \<Rightarrow>
             if is_dir item then
               (case generate_structure mf s (path @ [node_name item]) item (depth + 1) of
                  Inl e \<Rightarrow> Inl e
                | Inr substructure \<Rightarrow>
                    if substructure \<noteq> [] then
                      Inr ((indent depth @ ''* **'' @ safe_name (node_name item) @ ''/**'')
                           # split_nl substructure)
                    else Inr [])
             else if should_include_file mf s (path @ [node_name item]) then
               Inr [indent depth @ ''* '' @ safe_name (node_name item)]
             else Inr []))"

section \<open>The content walker\<close>

text \<open>
  \<open>path.glob("*")\<close> and \<open>path.rglob("*")\<close>: the entries below a directory, each with the node
  it names, hidden ones included. A directory that may not be listed yields nothing.
\<close>

fun glob :: "path \<Rightarrow> node \<Rightarrow> (path \<times> node) list" where
  "glob path (File n bs) = []"
| "glob path (Dir n listable es) =
     (if listable then map (\<lambda>e. (path @ [node_name e], e)) es else [])"

fun rglob :: "path \<Rightarrow> node \<Rightarrow> (path \<times> node) list" where
  "rglob path (File n bs) = []"
| "rglob path (Dir n listable es) =
     (if listable
      then map (\<lambda>e. (path @ [node_name e], e)) es
           @ concat (map (\<lambda>e. rglob (path @ [node_name e]) e) es)
      else [])"

text \<open>Lines 134 to 137: the files kept, sorted as \<open>Path\<close> objects.\<close>

definition code_files :: "matcher \<Rightarrow> scanner \<Rightarrow> (path \<times> node) list \<Rightarrow> (path \<times> node) list" where
  "code_files mf s files =
     sort_key fst (filter (\<lambda>f. is_file (snd f) \<and> should_include_file mf s (fst f)) files)"

text \<open>
  The body of the \<open>try\<close> of lines 140 to 144: the relative path, the language tag and the
  content of one block, or \<open>None\<close> when an exception makes the loop skip the file.
\<close>

definition read_block :: "path \<Rightarrow> path \<times> node \<Rightarrow> (path \<times> string \<times> string) option" where
  "read_block directory_path f =
     (case read_text (snd f) of
        None \<Rightarrow> None
      | Some content \<Rightarrow>
          (case relative_to (fst f) directory_path of
             None \<Rightarrow> None
           | Some relative_path \<Rightarrow>
               Some (relative_path, lstrip_dot (path_suffix (fst f)), content)))"

text \<open>Lines 146 to 152: the five strings appended for one block.\<close>

definition block_lines :: "path \<times> string \<times> string \<Rightarrow> string list" where
  "block_lines b =
     (case b of
        (relative_path, ext, content) \<Rightarrow>
          [''# '' @ str_path relative_path,
           [CHR 0x60, CHR 0x60, CHR 0x60] @ ext,
           content,
           [CHR 0x60, CHR 0x60, CHR 0x60],
           []])"

text \<open>The blocks of a scan, in the order in which they are emitted.\<close>

definition scan_blocks ::
  "matcher \<Rightarrow> scanner \<Rightarrow> path \<Rightarrow> node \<Rightarrow> bool \<Rightarrow> (path \<times> string \<times> string) list" where
  "scan_blocks mf s directory_path root recursive =
     List.map_filter (read_block directory_path)
       (code_files mf s
          (if recursive then rglob directory_path root else glob directory_path root))"

text \<open>
  \<open>scan_directory\<close>: the value returned or the exception raised, and the scanner afterwards.
\<close>

definition scan_directory ::
  "filesystem \<Rightarrow> matcher \<Rightarrow> scanner \<Rightarrow> string \<Rightarrow> bool \<Rightarrow> (error + string) \<times> scanner" where
  "scan_directory fs mf s directory recursive =
     (let directory_path = Path_of directory in
      case lookup fs directory_path of
        None \<Rightarrow> (Inl (ValueError (''Directory '' @ directory @ '' does not exist'')), s)
      | Some root \<Rightarrow>
          (let s' = s\<lparr>base_dir := Some (resolve fs directory_path)\<rparr> in
           case (if \<not> no_structure s' then
                   (case generate_structure mf s' directory_path root 0 of
                      Inl e \<Rightarrow> Inl e
                    | Inr dir_structure \<Rightarrow>
                        Inr ([''# Repository Structure'']
                             @ (if dir_structure \<noteq> [] then [dir_structure] else [])
                             @ [[]]))
                 else Inr []) of
             Inl e \<Rightarrow> (Inl e, s')
           | Inr merged_content \<Rightarrow>
               (Inr (join nl
                       (merged_content
                        @ concat (map block_lines
                                    (scan_blocks mf s' directory_path root recursive)))),
                s')))"

section \<open>Notions used to state the properties\<close>

text \<open>The scanner as it is during a scan of \<open>directory\<close>, after line 117.\<close>

definition scanning :: "filesystem \<Rightarrow> scanner \<Rightarrow> string \<Rightarrow> scanner" where
  "scanning fs s directory = s\<lparr>base_dir := Some (resolve fs (Path_of directory))\<rparr>"

text \<open>
  The text made of a rendered tree and a list of blocks: the structure section, unless the
  scanner has \<open>no_structure\<close> set, then the five strings of each block, all joined by newlines.
\<close>

definition scan_output :: "scanner \<Rightarrow> string \<Rightarrow> (path \<times> string \<times> string) list \<Rightarrow> string" where
  "scan_output s tree blocks =
     join nl
       ((if no_structure s then []
         else [''# Repository Structure''] @ (if tree \<noteq> [] then [tree] else []) @ [[]])
        @ concat (map block_lines blocks))"

text \<open>
  The reading of "extension" in the specification: the characters after the last \<open>.\<close> of the
  name, and nothing when the name has no \<open>.\<close>.
\<close>

definition ext_after_last_dot :: "string \<Rightarrow> string" where
  "ext_after_last_dot name =
     (if CHR ''.'' \<in> set name then rev (takeWhile (\<lambda>x. x \<noteq> CHR ''.'') (rev name)) else [])"

text \<open>
  The filtered listing of a directory is non-empty: the directory can be listed and holds a
  visible entry, neither hidden nor ignored, that is a file passing \<open>should_include_file\<close> or
  a directory whose own filtered listing is non-empty.
\<close>

fun has_listed_file :: "matcher \<Rightarrow> scanner \<Rightarrow> path \<Rightarrow> node \<Rightarrow> bool" where
  "has_listed_file mf s path (File n bs) = False"
| "has_listed_file mf s path (Dir n listable es) =
     (listable \<and>
      (\<exists>item \<in> set es.
         \<not> startswith (node_name item) ''.''
         \<and> tree_ignored mf s (path @ [node_name item]) = Inr False
         \<and> (if is_dir item then has_listed_file mf s (path @ [node_name item]) item
            else should_include_file mf s (path @ [node_name item]))))"

section \<open>Trees and their entries\<close>

text \<open>
  The names that a directory entry can have, and the trees in which every entry has such a name
  and no directory holds two entries of one name, as in every file system. The root itself may
  have any name.
\<close>

definition valid_name :: "string \<Rightarrow> bool" where
  "valid_name n = (n \<noteq> [] \<and> CHR ''/'' \<notin> set n \<and> n \<noteq> ''.'' \<and> n \<noteq> ''..'')"

fun wf_node :: "node \<Rightarrow> bool" where
  "wf_node (File n bs) = valid_name n"
| "wf_node (Dir n listable es) =
     (valid_name n \<and> distinct (map node_name es) \<and> (\<forall>e \<in> set es. wf_node e))"

fun wf_root :: "node \<Rightarrow> bool" where
  "wf_root (File n bs) = True"
| "wf_root (Dir n listable es) = (distinct (map node_name es) \<and> (\<forall>e \<in> set es. wf_node e))"


text \<open>
  The tree in which the entries picked by \<open>gone\<close>, a predicate on the path of an entry and the
  entry, have been deleted at every depth; \<open>path\<close> is the path of the node given.
\<close>

fun without :: "(path \<Rightarrow> node \<Rightarrow> bool) \<Rightarrow> path \<Rightarrow> node \<Rightarrow> node" where
  "without gone path (File n bs) = File n bs"
| "without gone path (Dir n listable es) =
     Dir n listable
       (map (\<lambda>e. without gone (path @ [node_name e]) e)
          (filter (\<lambda>e. \<not> gone (path @ [node_name e]) e) es))"


text \<open>The regular files whose name has no \<open>.\<close>.\<close>

definition extensionless_file :: "path \<Rightarrow> node \<Rightarrow> bool" where
  "extensionless_file p e = (is_file e \<and> CHR ''.'' \<notin> set (node_name e))"

text \<open>The directories whose filtered listing is empty.\<close>

definition empty_directory :: "matcher \<Rightarrow> scanner \<Rightarrow> path \<Rightarrow> node \<Rightarrow> bool" where
  "empty_directory mf s p e = (is_dir e \<and> \<not> has_listed_file mf s p e)"

section \<open>Example data\<close>

text \<open>
  A file system with three directories below the root; the process runs in \<open>/work\<close>.
\<close>

definition example_fs :: filesystem where
  "example_fs =
     \<lparr>root_entries =
        [Dir ''work'' True [File ''.gitignore'' (''*.py'' @ nl)],
         Dir ''proj'' True
           [File ''a.py'' (''x=1'' @ [CHR 0x0D, CHR 0x0A]),
            File ''Makefile'' ''all:'',
            File ''.hidden.py'' ''h'',
            File ''bad.py'' [CHR 0xFF],
            Dir ''a-b'' True [File ''x.py'' ''1''],
            Dir ''a'' True [File ''x.py'' ''2''],
            Dir ''empty'' True [Dir ''inner'' True [File ''notes.txt'' ''n'']]],
         Dir ''other'' True [File ''.gitignore'' (''*.txt'' @ nl), File ''b.txt'' ''t'']],
      cwd = [''work'']\<rparr>"

text \<open>The directory \<open>/proj\<close> of the example file system.\<close>

definition example_proj :: node where
  "example_proj =
     Dir ''proj'' True
       [File ''a.py'' (''x=1'' @ [CHR 0x0D, CHR 0x0A]),
        File ''Makefile'' ''all:'',
        File ''.hidden.py'' ''h'',
        File ''bad.py'' [CHR 0xFF],
        Dir ''a-b'' True [File ''x.py'' ''1''],
        Dir ''a'' True [File ''x.py'' ''2''],
        Dir ''empty'' True [Dir ''inner'' True [File ''notes.txt'' ''n'']]]"

text \<open>The same file system with no file \<open>Makefile\<close> in \<open>/proj\<close>.\<close>

definition plain_fs :: filesystem where
  "plain_fs =
     \<lparr>root_entries =
        [Dir ''work'' True [File ''.gitignore'' (''*.py'' @ nl)],
         Dir ''proj'' True
           [File ''a.py'' (''x=1'' @ [CHR 0x0D, CHR 0x0A]),
            File ''.hidden.py'' ''h'',
            File ''bad.py'' [CHR 0xFF],
            Dir ''a-b'' True [File ''x.py'' ''1''],
            Dir ''a'' True [File ''x.py'' ''2''],
            Dir ''empty'' True [Dir ''inner'' True [File ''notes.txt'' ''n'']]],
         Dir ''other'' True [File ''.gitignore'' (''*.txt'' @ nl), File ''b.txt'' ''t'']],
      cwd = [''work'']\<rparr>"

text \<open>
  A directory with a hidden directory and a directory \<open>build\<close>, each holding a Python file, and
  two hidden Python files, one of which is not UTF-8.
\<close>

definition example_tools :: node where
  "example_tools =
     Dir ''tools'' True
       [Dir ''.venv'' True [File ''run.py'' ''r''],
        Dir ''build'' True [File ''gen.py'' ''g''],
        File ''.conf.py'' ''c'',
        File ''.raw.py'' [CHR 0xFF]]"


text \<open>A matcher that ignores the key \<open>build\<close> and no other.\<close>

definition ignore_build :: matcher where
  "ignore_build spec key = (key = ''build'')"

text \<open>A scanner after a scan of \<open>/tools\<close>, with a matcher.\<close>

definition tools_scanner :: scanner where
  "tools_scanner =
     \<lparr>extensions = {''py''},
      exclude_patterns = {},
      exclude_extensions = {},
      no_structure = False,
      gitspec = Some [''build'' @ nl],
      base_dir = Some [''/'', ''tools'']\<rparr>"

text \<open>A matcher that ignores nothing, and one that ignores every path.\<close>

definition ignore_nothing :: matcher where
  "ignore_nothing spec key = False"

definition ignore_all :: matcher where
  "ignore_all spec key = True"

text \<open>A matcher that ignores the keys ending in \<open>.txt\<close>, as the rule \<open>*.txt\<close> does.\<close>

definition ignore_txt :: matcher where
  "ignore_txt spec key = endswith key ''.txt''"

definition example_scanner :: scanner where
  "example_scanner =
     \<lparr>extensions = {''py''},
      exclude_patterns = {''test_''},
      exclude_extensions = {''spec.js''},
      no_structure = False,
      gitspec = Some [''*.txt'' @ nl],
      base_dir = Some [''/'', ''proj'']\<rparr>"

text \<open>A scanner after a scan of \<open>/proj\<close>, without a matcher.\<close>

definition scanned_scanner :: scanner where
  "scanned_scanner =
     \<lparr>extensions = {''py''},
      exclude_patterns = {},
      exclude_extensions = {},
      no_structure = False,
      gitspec = None,
      base_dir = Some [''/'', ''proj'']\<rparr>"

text \<open>A scanner that allows the extension \<open>env\<close> and has no matcher.\<close>

definition dotfile_scanner :: scanner where
  "dotfile_scanner =
     \<lparr>extensions = {''env''},
      exclude_patterns = {},
      exclude_extensions = {},
      no_structure = False,
      gitspec = None,
      base_dir = None\<rparr>"

text \<open>A scanner with the rule \<open>*\<close> on which no scan has run yet.\<close>

definition unscanned_scanner :: scanner where
  "unscanned_scanner =
     \<lparr>extensions = {''py''},
      exclude_patterns = {},
      exclude_extensions = {},
      no_structure = False,
      gitspec = Some [''*'' @ nl],
      base_dir = None\<rparr>"

section \<open>Evaluation of the examples\<close>

lemmas path_defs =
  path_suffix_def path_name_def is_absolute_def rfind_def lstrip_dot_def str_path_def
  relative_to_def match_key_def startswith_def endswith_def Path_of_def

lemmas fs_defs = lookup_def path_exists_def open_readlines_def resolve_def nl_def

section \<open>The file filter\<close>

lemma path_suffix_no_dot: "CHR ''.'' \<notin> set (path_name p) \<Longrightarrow> path_suffix p = []"
  by (simp add: path_suffix_def rfind_def Let_def)

text \<open>
  Claim C3, as the code has it. \<open>should_include_file\<close> holds exactly when four conditions hold:
  the matcher, if one is configured and a scan has set the root, does not match the key of the
  path (the path relative to the root when it lies below the root, the path as given otherwise);
  the extension that \<open>pathlib\<close> computes (nothing when the only \<open>.\<close> of the name is its first or
  its last character) is allowed; no exclude pattern occurs in the path string; the path string
  ends with no exclude extension.
\<close>

theorem should_include_file_iff:
  "should_include_file mf s p \<longleftrightarrow>
     (\<forall>spec b. gitspec s = Some spec \<longrightarrow> base_dir s = Some b \<longrightarrow>
        \<not> mf spec (case relative_to p b of Some rel \<Rightarrow> str_path rel | None \<Rightarrow> str_path p))
     \<and> lstrip_dot (path_suffix p) \<in> extensions s
     \<and> (\<forall>pattern \<in> exclude_patterns s. \<not> contains pattern (str_path p))
     \<and> (\<forall>e \<in> exclude_extensions s. \<not> endswith (str_path p) e)"
  by (auto simp: should_include_file_def match_key_def split: option.splits)

theorem should_include_file_iff_witness:
  "should_include_file ignore_txt example_scanner [''/'', ''proj'', ''a.py'']
   \<and> \<not> should_include_file ignore_txt example_scanner [''/'', ''proj'', ''b.txt'']"
  using should_include_file_iff [of ignore_txt example_scanner "[''/'', ''proj'', ''a.py'']"]
    should_include_file_iff [of ignore_txt example_scanner "[''/'', ''proj'', ''b.txt'']"]
  by (simp add: example_scanner_def ignore_txt_def path_defs nl_def Let_def)

text \<open>
  The claim as the specification words it fails twice. The file \<open>.env\<close> has the characters
  \<open>env\<close> after its last \<open>.\<close>, and \<open>env\<close> is allowed, yet the file is rejected. And a scanner
  whose rule ignores every path accepts \<open>a.py\<close> as long as no scan has set its root.
\<close>

theorem should_include_file_claim_counterexample:
  "ext_after_last_dot (path_name [''.env'']) \<in> extensions dotfile_scanner
   \<and> exclude_patterns dotfile_scanner = {}
   \<and> exclude_extensions dotfile_scanner = {}
   \<and> gitspec dotfile_scanner = None
   \<and> \<not> should_include_file ignore_nothing dotfile_scanner [''.env'']
   \<and> gitspec unscanned_scanner = Some [''*'' @ nl]
   \<and> ignore_all [''*'' @ nl] ''a.py''
   \<and> should_include_file ignore_all unscanned_scanner [''a.py'']"
  by (simp add: dotfile_scanner_def unscanned_scanner_def ignore_all_def ignore_nothing_def
        ext_after_last_dot_def should_include_file_def path_defs Let_def)

section \<open>Construction and the default ignore file\<close>

lemma Path_of_gitignore: "Path_of ''.gitignore'' = [''.gitignore'']"
  by (simp add: Path_of_def startswith_def)

lemma lookup_gitignore:
  "lookup fs (Path_of ''.gitignore'') =
     walk (Dir ''/'' True (root_entries fs)) [] (cwd fs @ [''.gitignore''])"
  by (simp only: Path_of_gitignore lookup_def is_absolute_def list.case) simp

lemma load_default_gitignore:
  "gitignore_files = None \<or> gitignore_files = Some [] \<Longrightarrow>
   gitspec s = None \<Longrightarrow>
   gitspec (load_gitignore fs s gitignore_files) =
     (case lookup fs (Path_of ''.gitignore'') of
        None \<Rightarrow> None
      | Some n \<Rightarrow>
          (case read_text n of
             None \<Rightarrow> None
           | Some txt \<Rightarrow> if readlines txt = [] then None else Some (readlines txt)))"
  unfolding load_gitignore_def open_readlines_def path_exists_def Let_def
  by (auto split: option.splits)

text \<open>
  Claim C2, as the code has it. With no ignore files named and discovery on, the patterns are
  the lines of the file \<open>.gitignore\<close> of the working directory of the process, read when the
  scanner is built; no matcher is built when that file is missing, is not readable as text, or
  has no line.
\<close>

theorem default_gitignore_read_from_cwd:
  "gitignore_files = None \<or> gitignore_files = Some [] \<Longrightarrow>
   gitspec (init fs exts ep ee gitignore_files False) =
     (case walk (Dir ''/'' True (root_entries fs)) [] (cwd fs @ [''.gitignore'']) of
        None \<Rightarrow> None
      | Some n \<Rightarrow>
          (case read_text n of
             None \<Rightarrow> None
           | Some txt \<Rightarrow> if readlines txt = [] then None else Some (readlines txt)))"
  unfolding init_def Let_def
  by (simp add: load_default_gitignore lookup_gitignore del: walk.simps)

theorem default_gitignore_read_from_cwd_witness:
  "gitspec (init example_fs None None None None False) = Some [''*.py'' @ nl]"
  using default_gitignore_read_from_cwd [of None example_fs None None None]
  by (simp add: example_fs_def nl_def)

lemma scan_directory_gitspec:
  "gitspec (snd (scan_directory fs mf s directory recursive)) = gitspec s"
  by (simp add: scan_directory_def Let_def split: option.splits sum.splits)

lemma example_default_gitspec:
  "gitspec (init example_fs None None None None False) = Some [''*.py'' @ nl]"
  unfolding init_def Let_def
  by (simp add: load_default_gitignore lookup_gitignore example_fs_def nl_def)

text \<open>
  The claim as the specification words it fails in both directions. The process runs in
  \<open>/work\<close>, whose \<open>.gitignore\<close> holds \<open>*.py\<close>. A scan of \<open>/other\<close>, whose own
  \<open>.gitignore\<close> holds \<open>*.txt\<close>, runs with the rule \<open>*.py\<close>; and a scan of \<open>/proj\<close>,
  which has no \<open>.gitignore\<close>, runs with the rule \<open>*.py\<close> as well.
\<close>

theorem default_gitignore_claim_counterexample:
  "open_readlines example_fs ''/other/.gitignore'' = Some [''*.txt'' @ nl]
   \<and> gitspec (snd (scan_directory example_fs ignore_nothing
                       (init example_fs None None None None False) ''/other'' True)) =
       Some [''*.py'' @ nl]
   \<and> \<not> path_exists example_fs (Path_of ''/proj'' @ [''.gitignore''])
   \<and> gitspec (snd (scan_directory example_fs ignore_nothing
                       (init example_fs None None None None False) ''/proj'' True)) =
       Some [''*.py'' @ nl]"
  by (simp add: scan_directory_gitspec example_default_gitspec)
     (simp add: example_fs_def open_readlines_def path_exists_def lookup_def Path_of_def
        startswith_def is_absolute_def nl_def)

section \<open>The scan\<close>

text \<open>
  Claim C10. Whatever a scan returns or raises, the scanner afterwards differs from the scanner
  before in the field \<open>base_dir\<close> at most.
\<close>

theorem scan_directory_frame:
  "snd (scan_directory fs mf s directory recursive) =
     s\<lparr>base_dir := base_dir (snd (scan_directory fs mf s directory recursive))\<rparr>"
  by (simp add: scan_directory_def Let_def split: option.splits sum.splits)

text \<open>
  Claim C8. A scan of a path that does not exist raises \<open>ValueError\<close>; it returns no output and
  leaves the scanner as it was, \<open>base_dir\<close> included.
\<close>

theorem scan_missing_root_fails:
  "\<not> path_exists fs (Path_of directory) \<Longrightarrow>
   scan_directory fs mf s directory recursive =
     (Inl (ValueError (''Directory '' @ directory @ '' does not exist'')), s)"
  by (simp add: scan_directory_def path_exists_def Let_def)

theorem scan_missing_root_fails_witness:
  "\<not> path_exists example_fs (Path_of ''/nope'')
   \<and> scan_directory example_fs ignore_nothing example_scanner ''/nope'' True =
       (Inl (ValueError ''Directory /nope does not exist''), example_scanner)"
  using scan_missing_root_fails [of example_fs "''/nope''" ignore_nothing example_scanner True]
  by (simp add: example_fs_def path_exists_def lookup_def Path_of_def startswith_def
        is_absolute_def)

section \<open>The tree walker\<close>

lemma generate_structure_Dir:
  "generate_structure mf s path (Dir n listable es) depth =
     (if \<not> listable then Inr []
      else (case collect (map (item_structure mf s path depth)
                            (sort_key (\<lambda>e. path @ [node_name e]) es)) of
              Inl e \<Rightarrow> Inl e
            | Inr structure \<Rightarrow> Inr (join nl structure)))"
  by (simp add: item_structure_def [abs_def])

declare generate_structure.simps(2) [simp del]

lemma collect_Inr:
  "(\<And>x. x \<in> set xs \<Longrightarrow> \<exists>ls. f x = Inr ls) \<Longrightarrow>
   collect (map f xs) = Inr (concat (map (\<lambda>x. projr (f x)) xs))"
proof (induction xs)
  case Nil
  then show ?case by simp
next
  case (Cons x xs)
  then obtain ls where "f x = Inr ls" by auto
  moreover have "collect (map f xs) = Inr (concat (map (\<lambda>x. projr (f x)) xs))"
    using Cons by simp
  ultimately show ?case by simp
qed

lemma collect_filter:
  "(\<And>x. x \<in> set xs \<Longrightarrow> \<not> P x \<Longrightarrow> f x = Inr []) \<Longrightarrow>
   collect (map f (filter P xs)) = collect (map f xs)"
proof (induction xs)
  case Nil
  then show ?case by simp
next
  case (Cons x xs)
  then have IH: "collect (map f (filter P xs)) = collect (map f xs)" by simp
  show ?case
  proof (cases "P x")
    case True
    then show ?thesis using IH by (cases "f x") simp_all
  next
    case False
    then have "f x = Inr []" using Cons.prems by simp
    then show ?thesis using False IH by (simp split: sum.splits)
  qed
qed

lemma tree_ignored_total:
  "base_dir s = Some b \<Longrightarrow> \<exists>r. tree_ignored mf s item = Inr r"
  by (auto simp: tree_ignored_def split: option.splits)

lemma generate_structure_total:
  "base_dir s = Some b \<Longrightarrow> is_dir node \<Longrightarrow>
   \<exists>r. generate_structure mf s path node depth = Inr r"
proof (induction mf s path node depth rule: generate_structure.induct)
  case (1 mf s path n bs depth)
  then show ?case by simp
next
  case (2 mf s path n listable es depth)
  show ?case
  proof (cases listable)
    case False
    then show ?thesis by (simp add: generate_structure_Dir)
  next
    case True
    have "\<exists>ls. item_structure mf s path depth item = Inr ls"
      if "item \<in> set (sort_key (\<lambda>e. path @ [node_name e]) es)" for item
    proof (cases "startswith (node_name item) ''.''")
      case True
      then show ?thesis by (simp add: item_structure_def)
    next
      case nh: False
      obtain r where r: "tree_ignored mf s (path @ [node_name item]) = Inr r"
        using tree_ignored_total [OF "2.prems"(1)] by blast
      show ?thesis
      proof (cases r)
        case True
        then show ?thesis using nh r by (simp add: item_structure_def)
      next
        case ni: False
        show ?thesis
        proof (cases "is_dir item")
          case False
          then show ?thesis using nh r ni by (simp add: item_structure_def)
        next
          case d: True
          have "\<exists>r. generate_structure mf s (path @ [node_name item]) item (depth + 1) = Inr r"
            using "2.IH" [OF _ that nh _ _ d "2.prems"(1) d] True r ni by simp
          then show ?thesis using nh r ni d by (auto simp: item_structure_def)
        qed
      qed
    qed
    then obtain st where
      "collect (map (item_structure mf s path depth)
                 (sort_key (\<lambda>e. path @ [node_name e]) es)) = Inr st"
      using collect_Inr [of "sort_key (\<lambda>e. path @ [node_name e]) es"
                            "item_structure mf s path depth"] by blast
    then show ?thesis using True by (simp add: generate_structure_Dir)
  qed
qed

lemma join_nonempty: "x \<noteq> [] \<Longrightarrow> join sep (x # xs) \<noteq> []"
  by (cases xs) simp_all

lemma concat_hd_nonempty:
  "(\<And>ls. ls \<in> set lss \<Longrightarrow> ls = [] \<or> hd ls \<noteq> []) \<Longrightarrow>
   concat lss = [] \<or> hd (concat lss) \<noteq> []"
proof (induction lss)
  case Nil
  then show ?case by simp
next
  case (Cons a lss)
  show ?case
  proof (cases "a = []")
    case True
    then show ?thesis using Cons by simp
  next
    case False
    then have "hd a \<noteq> []" using Cons.prems [of a] by simp
    then show ?thesis using False by simp
  qed
qed

lemma join_concat_empty:
  assumes "\<And>ls. ls \<in> set lss \<Longrightarrow> ls = [] \<or> hd ls \<noteq> []"
  shows "join sep (concat lss) = [] \<longleftrightarrow> (\<forall>ls \<in> set lss. ls = [])"
proof (cases "concat lss")
  case Nil
  then show ?thesis by (metis concat_eq_Nil_conv join.simps(1))
next
  case (Cons x xs)
  then have "x \<noteq> []" using concat_hd_nonempty [of lss] assms by fastforce
  then have "join sep (concat lss) \<noteq> []" using Cons join_nonempty by simp
  moreover have "\<not> (\<forall>ls \<in> set lss. ls = [])"
    using Cons by (metis concat_eq_Nil_conv list.distinct(1))
  ultimately show ?thesis by simp
qed

lemma item_structure_hd:
  "item_structure mf s path depth item = Inr ls \<Longrightarrow> ls = [] \<or> hd ls \<noteq> []"
  by (auto simp: item_structure_def split: if_splits sum.splits bool.splits)

lemma rendering_nonempty_iff:
  "base_dir s = Some b \<Longrightarrow> is_dir node \<Longrightarrow>
   generate_structure mf s path node depth = Inr r \<Longrightarrow>
   r \<noteq> [] \<longleftrightarrow> has_listed_file mf s path node"
proof (induction mf s path node depth arbitrary: r rule: generate_structure.induct)
  case (1 mf s path n bs depth)
  then show ?case by simp
next
  case (2 mf s path n listable es depth)
  let ?srt = "sort_key (\<lambda>e. path @ [node_name e]) es"
  let ?f = "item_structure mf s path depth"
  show ?case
  proof (cases listable)
    case False
    then show ?thesis using "2.prems" by (simp add: generate_structure_Dir)
  next
    case True
    have total: "\<exists>ls. ?f item = Inr ls" for item
    proof -
      obtain ig where ig: "tree_ignored mf s (path @ [node_name item]) = Inr ig"
        using tree_ignored_total [OF "2.prems"(1)] by blast
      show ?thesis
      proof (cases "is_dir item")
        case False
        then show ?thesis using ig by (cases ig) (simp_all add: item_structure_def)
      next
        case d: True
        obtain sub where
          "generate_structure mf s (path @ [node_name item]) item (depth + 1) = Inr sub"
          using generate_structure_total [OF "2.prems"(1) d] by blast
        then show ?thesis using ig d by (cases ig) (simp_all add: item_structure_def)
      qed
    qed
    have key: "projr (?f item) \<noteq> [] \<longleftrightarrow>
        (\<not> startswith (node_name item) ''.''
         \<and> tree_ignored mf s (path @ [node_name item]) = Inr False
         \<and> (if is_dir item then has_listed_file mf s (path @ [node_name item]) item
            else should_include_file mf s (path @ [node_name item])))"
      if mem: "item \<in> set es" for item
    proof (cases "startswith (node_name item) ''.''")
      case True
      then show ?thesis by (simp add: item_structure_def)
    next
      case nh: False
      obtain ig where ig: "tree_ignored mf s (path @ [node_name item]) = Inr ig"
        using tree_ignored_total [OF "2.prems"(1)] by blast
      show ?thesis
      proof (cases ig)
        case True
        then show ?thesis using nh ig by (simp add: item_structure_def)
      next
        case ni: False
        show ?thesis
        proof (cases "is_dir item")
          case False
          then show ?thesis using nh ig ni by (simp add: item_structure_def)
        next
          case d: True
          obtain sub where
            sub: "generate_structure mf s (path @ [node_name item]) item (depth + 1) = Inr sub"
            using generate_structure_total [OF "2.prems"(1) d] by blast
          have mem': "item \<in> set ?srt" using mem by simp
          have "sub \<noteq> [] \<longleftrightarrow> has_listed_file mf s (path @ [node_name item]) item"
            using "2.IH" [OF _ mem' nh _ _ d "2.prems"(1) d sub] True ig ni by simp
          then show ?thesis using nh ig ni d sub by (simp add: item_structure_def)
        qed
      qed
    qed
    have col: "collect (map ?f ?srt) = Inr (concat (map (\<lambda>x. projr (?f x)) ?srt))"
      using collect_Inr [of ?srt ?f] total by blast
    have r: "r = join nl (concat (map (\<lambda>x. projr (?f x)) ?srt))"
      using "2.prems"(3) True col by (simp add: generate_structure_Dir)
    have hd: "ls = [] \<or> hd ls \<noteq> []" if "ls \<in> set (map (\<lambda>x. projr (?f x)) ?srt)" for ls
    proof -
      from that obtain item where "ls = projr (?f item)" by auto
      moreover obtain ls' where "?f item = Inr ls'" using total by blast
      ultimately show ?thesis using item_structure_hd [of mf s path depth item ls'] by simp
    qed
    have je: "join nl (concat (map (\<lambda>x. projr (?f x)) ?srt)) = [] \<longleftrightarrow>
        (\<forall>ls \<in> set (map (\<lambda>x. projr (?f x)) ?srt). ls = [])"
      by (rule join_concat_empty) (erule hd)
    have "r \<noteq> [] \<longleftrightarrow> (\<exists>item \<in> set es. projr (?f item) \<noteq> [])"
      unfolding r je by auto
    then show ?thesis using key True by auto
  qed
qed

declare has_listed_file.simps(2) [simp del]

lemma generate_structure_drop_silent:
  assumes "\<And>e. e \<in> set es \<Longrightarrow> \<not> P e \<Longrightarrow> item_structure mf s path depth e = Inr []"
  shows "generate_structure mf s path (Dir n listable (filter P es)) depth =
         generate_structure mf s path (Dir n listable es) depth"
proof -
  let ?k = "\<lambda>e. path @ [node_name e]"
  have "collect (map (item_structure mf s path depth) (filter P (sort_key ?k es))) =
        collect (map (item_structure mf s path depth) (sort_key ?k es))"
    by (rule collect_filter) (simp add: assms)
  then show ?thesis
    by (simp add: generate_structure_Dir filter_sort)
qed

section \<open>Deleting entries from a tree\<close>

lemma insort_key_map_same:
  "(\<And>x. k (f x) = k x) \<Longrightarrow> insort_key k (f x) (map f ys) = map f (insort_key k x ys)"
  by (induction ys) simp_all

lemma sort_key_map_same:
  "(\<And>x. k (f x) = k x) \<Longrightarrow> sort_key k (map f xs) = map f (sort_key k xs)"
  by (induction xs) (simp_all add: insort_key_map_same)

lemma node_name_without [simp]: "node_name (without gone path node) = node_name node"
  by (cases node) simp_all

lemma is_dir_without [simp]: "is_dir (without gone path node) = is_dir node"
  by (cases node) simp_all

lemma is_file_without [simp]: "is_file (without gone path node) = is_file node"
  by (cases node) simp_all

lemma without_file: "is_file node \<Longrightarrow> without gone path node = node"
  by (cases node) simp_all

lemma not_dir_file: "\<not> is_dir node \<Longrightarrow> is_file node"
  by (cases node) simp_all

lemma collect_map_cong:
  "(\<And>x. x \<in> set xs \<Longrightarrow> f x = g x) \<Longrightarrow> collect (map f xs) = collect (map g xs)"
  by (simp cong: map_cong)

lemma generate_structure_without:
  assumes silent:
    "\<And>path depth e. gone (path @ [node_name e]) e \<Longrightarrow> item_structure mf s path depth e = Inr []"
  shows "generate_structure mf s path (without gone path node) depth =
         generate_structure mf s path node depth"
  using silent
proof (induction mf s path node depth rule: generate_structure.induct)
  case (1 mf s path n bs depth)
  then show ?case by simp
next
  case (2 mf s path n listable es depth)
  let ?k = "\<lambda>e. path @ [node_name e]"
  let ?W = "\<lambda>e. without gone (path @ [node_name e]) e"
  let ?K = "\<lambda>e. \<not> gone (path @ [node_name e]) e"
  let ?f = "item_structure mf s path depth"
  show ?case
  proof (cases listable)
    case False
    then show ?thesis by (simp add: generate_structure_Dir)
  next
    case True
    have same: "?f (?W e) = ?f e" if mem: "e \<in> set (sort_key ?k es)" for e
    proof (cases "startswith (node_name e) ''.''")
      case True
      then show ?thesis by (simp add: item_structure_def)
    next
      case nh: False
      show ?thesis
      proof (cases "tree_ignored mf s (path @ [node_name e])")
        case (Inl err)
        then show ?thesis using nh by (simp add: item_structure_def)
      next
        case (Inr ig)
        show ?thesis
        proof (cases ig)
          case True
          then show ?thesis using nh Inr by (simp add: item_structure_def)
        next
          case ni: False
          show ?thesis
          proof (cases "is_dir e")
            case False
            then have "?W e = e" by (simp add: without_file not_dir_file)
            then show ?thesis by simp
          next
            case d: True
            have "generate_structure mf s (path @ [node_name e]) (?W e) (depth + 1) =
                  generate_structure mf s (path @ [node_name e]) e (depth + 1)"
              using "2.IH" [OF _ mem nh _ _ d "2.prems"] True Inr ni by simp
            then show ?thesis using nh Inr ni d
              by (simp add: item_structure_def split: sum.splits)
          qed
        qed
      qed
    qed
    have "sort_key ?k (map ?W (filter ?K es)) = map ?W (sort_key ?k (filter ?K es))"
      by (rule sort_key_map_same) simp
    also have "\<dots> = map ?W (filter ?K (sort_key ?k es))"
      by (simp add: filter_sort)
    finally have "collect (map ?f (sort_key ?k (map ?W (filter ?K es)))) =
        collect (map (\<lambda>e. ?f (?W e)) (filter ?K (sort_key ?k es)))"
      by (simp add: comp_def)
    also have "\<dots> = collect (map ?f (filter ?K (sort_key ?k es)))"
      by (rule collect_map_cong) (simp add: same)
    also have "\<dots> = collect (map ?f (sort_key ?k es))"
      by (rule collect_filter) (simp add: "2.prems")
    finally show ?thesis using True by (simp add: generate_structure_Dir)
  qed
qed

lemma join_Cons_Cons: "join sep ((a # x) # xs) = a # join sep (x # xs)"
  by (cases xs) simp_all

lemma split_on_nonempty: "split_on c s \<noteq> []"
  by (induction s) (auto split: list.splits)

lemma join_split_on: "join [c] (split_on c s) = s"
proof (induction s)
  case Nil
  then show ?case by simp
next
  case (Cons a s)
  show ?case
  proof (cases "a = c")
    case True
    then show ?thesis using Cons by (cases "split_on c s") simp_all
  next
    case False
    then show ?thesis using Cons
      by (cases "split_on c s") (simp_all add: join_Cons_Cons split_on_nonempty)
  qed
qed

lemma join_Cons: "xs \<noteq> [] \<Longrightarrow> join sep (x # xs) = x @ sep @ join sep xs"
  by (cases xs) simp_all

lemma join_heading: "join nl (h # split_nl r) = h @ nl @ r"
  by (simp add: join_Cons split_nl_def split_on_nonempty join_split_on nl_def)

lemma join_append:
  "xs \<noteq> [] \<Longrightarrow> ys \<noteq> [] \<Longrightarrow> join sep (xs @ ys) = join sep xs @ sep @ join sep ys"
proof (induction xs)
  case Nil
  then show ?case by simp
next
  case (Cons x xs)
  then show ?case by (cases "xs = []") (simp_all add: join_Cons)
qed

lemma join_concat_pieces:
  assumes "\<And>ls. ls \<in> set lss \<Longrightarrow> ls = [] \<or> hd ls \<noteq> []"
  shows "join sep (concat lss) = join sep (filter (\<lambda>x. x \<noteq> []) (map (join sep) lss))"
  using assms
proof (induction lss)
  case Nil
  then show ?case by simp
next
  case (Cons ls lss)
  have IH: "join sep (concat lss) = join sep (filter (\<lambda>x. x \<noteq> []) (map (join sep) lss))"
    using Cons by simp
  have hdr: "\<And>l. l \<in> set lss \<Longrightarrow> l = [] \<or> hd l \<noteq> []" using Cons.prems by simp
  show ?case
  proof (cases "ls = []")
    case True
    then show ?thesis using IH by simp
  next
    case False
    then have "hd ls \<noteq> []" using Cons.prems [of ls] by simp
    then have jn: "join sep ls \<noteq> []" using False join_nonempty [of "hd ls" sep "tl ls"] by simp
    show ?thesis
    proof (cases "concat lss = []")
      case True
      then have "\<forall>l \<in> set lss. l = []" by simp
      then have "filter (\<lambda>x. x \<noteq> []) (map (join sep) lss) = []"
        by (auto simp: filter_empty_conv)
      then have e2: "filter (\<lambda>x. x \<noteq> []) (map (join sep) (ls # lss)) = [join sep ls]"
        using jn by simp
      have e1: "concat (ls # lss) = ls" using True by simp
      show ?thesis unfolding e1 e2 by simp
    next
      case ne: False
      have "join sep (concat lss) \<noteq> []"
        using join_concat_empty [of lss sep] hdr ne by auto
      then have "filter (\<lambda>x. x \<noteq> []) (map (join sep) lss) \<noteq> []"
        using IH by auto
      then show ?thesis using False ne jn IH by (simp add: join_append join_Cons)
    qed
  qed
qed

section \<open>Directories in the rendered tree\<close>

lemma item_structure_total:
  "base_dir s = Some b \<Longrightarrow> \<exists>ls. item_structure mf s path depth item = Inr ls"
proof -
  assume b: "base_dir s = Some b"
  obtain ig where ig: "tree_ignored mf s (path @ [node_name item]) = Inr ig"
    using tree_ignored_total [OF b] by blast
  show ?thesis
  proof (cases "is_dir item")
    case False
    then show ?thesis using ig by (cases ig) (simp_all add: item_structure_def)
  next
    case d: True
    obtain sub where
      "generate_structure mf s (path @ [node_name item]) item (depth + 1) = Inr sub"
      using generate_structure_total [OF b d] by blast
    then show ?thesis using ig d by (cases ig) (simp_all add: item_structure_def)
  qed
qed

lemma generate_structure_single:
  "item_structure mf s path depth e = Inr ls \<Longrightarrow>
   generate_structure mf s path (Dir pn True [e]) depth = Inr (join nl ls)"
  by (simp add: generate_structure_Dir)

lemma generate_structure_entries:
  assumes b: "base_dir s = Some b"
  shows "generate_structure mf s path (Dir pn True entries) depth =
     Inr (join nl (filter (\<lambda>x. x \<noteq> [])
            (map (\<lambda>e. projr (generate_structure mf s path (Dir pn True [e]) depth))
               (sort_key (\<lambda>e. path @ [node_name e]) entries))))"
proof -
  let ?srt = "sort_key (\<lambda>e. path @ [node_name e]) entries"
  let ?f = "item_structure mf s path depth"
  have total: "\<exists>ls. ?f item = Inr ls" for item
    using item_structure_total [OF b] .
  have single: "projr (generate_structure mf s path (Dir pn True [e]) depth) =
      join nl (projr (?f e))" for e
  proof -
    obtain ls where "?f e = Inr ls" using total by blast
    then show ?thesis using generate_structure_single [of mf s path depth e ls pn] by simp
  qed
  have col: "collect (map ?f ?srt) = Inr (concat (map (\<lambda>x. projr (?f x)) ?srt))"
    using collect_Inr [of ?srt ?f] total by blast
  have hd: "ls = [] \<or> hd ls \<noteq> []" if "ls \<in> set (map (\<lambda>x. projr (?f x)) ?srt)" for ls
  proof -
    from that obtain item where "ls = projr (?f item)" by auto
    moreover obtain ls' where "?f item = Inr ls'" using total by blast
    ultimately show ?thesis using item_structure_hd [of mf s path depth item ls'] by simp
  qed
  have pieces: "join nl (concat (map (\<lambda>x. projr (?f x)) ?srt)) =
      join nl (filter (\<lambda>x. x \<noteq> []) (map (join nl) (map (\<lambda>x. projr (?f x)) ?srt)))"
    by (rule join_concat_pieces) (erule hd)
  have main: "generate_structure mf s path (Dir pn True entries) depth =
      Inr (join nl (concat (map (\<lambda>x. projr (?f x)) ?srt)))"
    using col by (simp add: generate_structure_Dir)
  have eq: "map (\<lambda>e. projr (generate_structure mf s path (Dir pn True [e]) depth)) ?srt =
      map (join nl) (map (\<lambda>x. projr (?f x)) ?srt)"
    by (simp add: single)
  show ?thesis unfolding main eq pieces ..
qed

lemma generate_structure_single_directory:
  assumes "generate_structure mf s (path @ [n]) (Dir n l es) (depth + 1) = Inr sub"
    and "tree_ignored mf s (path @ [n]) = Inr ig"
  shows "generate_structure mf s path (Dir pn True [Dir n l es]) depth =
     Inr (if \<not> startswith n ''.'' \<and> \<not> ig \<and> sub \<noteq> []
          then indent depth @ ''* **'' @ safe_name n @ ''/**'' @ nl @ sub
          else [])"
proof -
  have "item_structure mf s path depth (Dir n l es) =
      Inr (if \<not> startswith n ''.'' \<and> \<not> ig \<and> sub \<noteq> []
           then (indent depth @ ''* **'' @ safe_name n @ ''/**'') # split_nl sub else [])"
    using assms by (cases ig) (simp_all add: item_structure_def)
  then show ?thesis
    using generate_structure_single [of mf s path depth "Dir n l es" _ pn]
    by (simp add: join_heading)
qed

lemma item_structure_empty_directory:
  assumes b: "base_dir s = Some b" and e: "empty_directory mf s (path @ [node_name e]) e"
  shows "item_structure mf s path depth e = Inr []"
proof -
  have d: "is_dir e" and nl: "\<not> has_listed_file mf s (path @ [node_name e]) e"
    using e by (simp_all add: empty_directory_def)
  obtain sub where
    sub: "generate_structure mf s (path @ [node_name e]) e (depth + 1) = Inr sub"
    using generate_structure_total [OF b d] by blast
  have "sub = []" using rendering_nonempty_iff [OF b d sub] nl by blast
  moreover obtain ig where "tree_ignored mf s (path @ [node_name e]) = Inr ig"
    using tree_ignored_total [OF b] by blast
  ultimately show ?thesis using sub d by (cases ig) (simp_all add: item_structure_def)
qed

text \<open>
  Claim C5, as the code has it. In a scan (the root is set), the rendering of a directory is
  the rendering of the tree from which every directory with an empty filtered listing has been
  deleted at every depth: such a directory leaves no trace, and neither does a directory that
  holds such directories only. Deleting one such directory from its parent changes nothing
  either. The rendering of a directory is empty exactly when its filtered listing is empty. In
  the rendering of a parent that holds the directory alone, the line of the directory is
  printed, followed by the rendering of the directory, exactly when the directory is not hidden,
  is not ignored and its rendering is not empty; nothing is printed otherwise. And the rendering
  of a parent is made of what each of its entries gives alone, in sorted order, joined by
  newlines.
\<close>

theorem empty_directory_omitted:
  "let t = s\<lparr>base_dir := Some b\<rparr> in
     generate_structure mf t path (without (empty_directory mf t) path node) depth =
       generate_structure mf t path node depth
     \<and> (Dir n l es \<in> set siblings \<longrightarrow>
          \<not> has_listed_file mf t (path @ [n]) (Dir n l es) \<longrightarrow>
          generate_structure mf t path
            (Dir pn True (filter (\<lambda>e. e \<noteq> Dir n l es) siblings)) depth =
          generate_structure mf t path (Dir pn True siblings) depth)
     \<and> (\<exists>sub. generate_structure mf t (path @ [n]) (Dir n l es) (depth + 1) = Inr sub
          \<and> (sub \<noteq> [] \<longleftrightarrow> has_listed_file mf t (path @ [n]) (Dir n l es))
          \<and> generate_structure mf t path (Dir pn True [Dir n l es]) depth =
              Inr (if \<not> startswith n ''.'' \<and> tree_ignored mf t (path @ [n]) = Inr False
                      \<and> sub \<noteq> []
                   then indent depth @ ''* **'' @ safe_name n @ ''/**'' @ nl @ sub
                   else []))
     \<and> generate_structure mf t path (Dir pn True entries) depth =
         Inr (join nl (filter (\<lambda>x. x \<noteq> [])
                (map (\<lambda>e. projr (generate_structure mf t path (Dir pn True [e]) depth))
                   (sort_key (\<lambda>e. path @ [node_name e]) entries))))"
proof -
  define t where "t = s\<lparr>base_dir := Some b\<rparr>"
  have b: "base_dir t = Some b" by (simp add: t_def)
  have all: "generate_structure mf t path (without (empty_directory mf t) path node) depth =
       generate_structure mf t path node depth"
    by (rule generate_structure_without) (rule item_structure_empty_directory [OF b])
  have one: "generate_structure mf t path
            (Dir pn True (filter (\<lambda>e. e \<noteq> Dir n l es) siblings)) depth =
          generate_structure mf t path (Dir pn True siblings) depth"
    if "\<not> has_listed_file mf t (path @ [n]) (Dir n l es)"
  proof (rule generate_structure_drop_silent)
    fix e assume "\<not> e \<noteq> Dir n l es"
    then have "empty_directory mf t (path @ [node_name e]) e"
      using that by (simp add: empty_directory_def)
    then show "item_structure mf t path depth e = Inr []"
      by (rule item_structure_empty_directory [OF b])
  qed
  obtain sub where
    sub: "generate_structure mf t (path @ [n]) (Dir n l es) (depth + 1) = Inr sub"
    using generate_structure_total [OF b, of "Dir n l es" mf "path @ [n]" "depth + 1"] by auto
  have iff: "sub \<noteq> [] \<longleftrightarrow> has_listed_file mf t (path @ [n]) (Dir n l es)"
    using rendering_nonempty_iff [OF b _ sub] by simp
  obtain ig where ig: "tree_ignored mf t (path @ [n]) = Inr ig"
    using tree_ignored_total [OF b] by blast
  have line: "generate_structure mf t path (Dir pn True [Dir n l es]) depth =
      Inr (if \<not> startswith n ''.'' \<and> tree_ignored mf t (path @ [n]) = Inr False \<and> sub \<noteq> []
           then indent depth @ ''* **'' @ safe_name n @ ''/**'' @ nl @ sub else [])"
    using generate_structure_single_directory [OF sub ig, of pn] ig by simp
  have entries: "generate_structure mf t path (Dir pn True entries) depth =
         Inr (join nl (filter (\<lambda>x. x \<noteq> [])
                (map (\<lambda>e. projr (generate_structure mf t path (Dir pn True [e]) depth))
                   (sort_key (\<lambda>e. path @ [node_name e]) entries))))"
    by (rule generate_structure_entries [OF b])
  have "generate_structure mf t path (without (empty_directory mf t) path node) depth =
       generate_structure mf t path node depth
     \<and> (Dir n l es \<in> set siblings \<longrightarrow>
          \<not> has_listed_file mf t (path @ [n]) (Dir n l es) \<longrightarrow>
          generate_structure mf t path
            (Dir pn True (filter (\<lambda>e. e \<noteq> Dir n l es) siblings)) depth =
          generate_structure mf t path (Dir pn True siblings) depth)
     \<and> (\<exists>sub. generate_structure mf t (path @ [n]) (Dir n l es) (depth + 1) = Inr sub
          \<and> (sub \<noteq> [] \<longleftrightarrow> has_listed_file mf t (path @ [n]) (Dir n l es))
          \<and> generate_structure mf t path (Dir pn True [Dir n l es]) depth =
              Inr (if \<not> startswith n ''.'' \<and> tree_ignored mf t (path @ [n]) = Inr False
                      \<and> sub \<noteq> []
                   then indent depth @ ''* **'' @ safe_name n @ ''/**'' @ nl @ sub
                   else []))
     \<and> generate_structure mf t path (Dir pn True entries) depth =
         Inr (join nl (filter (\<lambda>x. x \<noteq> [])
                (map (\<lambda>e. projr (generate_structure mf t path (Dir pn True [e]) depth))
                   (sort_key (\<lambda>e. path @ [node_name e]) entries))))"
    using all one sub iff line entries by blast
  then show ?thesis unfolding t_def Let_def .
qed

theorem empty_directory_omitted_witness:
  "without (empty_directory ignore_nothing scanned_scanner) [''/'', ''proj''] example_proj =
     Dir ''proj'' True
       [File ''a.py'' (''x=1'' @ [CHR 0x0D, CHR 0x0A]),
        File ''Makefile'' ''all:'',
        File ''.hidden.py'' ''h'',
        File ''bad.py'' [CHR 0xFF],
        Dir ''a-b'' True [File ''x.py'' ''1''],
        Dir ''a'' True [File ''x.py'' ''2'']]
   \<and> generate_structure ignore_nothing scanned_scanner [''/'', ''proj'']
         (without (empty_directory ignore_nothing scanned_scanner) [''/'', ''proj'']
            example_proj) 0 =
       generate_structure ignore_nothing scanned_scanner [''/'', ''proj''] example_proj 0
   \<and> \<not> has_listed_file ignore_nothing scanned_scanner [''/'', ''proj'', ''empty'']
         (Dir ''empty'' True [Dir ''inner'' True [File ''notes.txt'' ''n'']])
   \<and> generate_structure ignore_nothing scanned_scanner [''/'', ''proj'']
         (Dir ''proj'' True [Dir ''empty'' True [Dir ''inner'' True [File ''notes.txt'' ''n'']]])
         0 = Inr []
   \<and> has_listed_file ignore_nothing scanned_scanner [''/'', ''proj'', ''a'']
         (Dir ''a'' True [File ''x.py'' ''2''])
   \<and> generate_structure ignore_nothing scanned_scanner [''/'', ''proj'']
         (Dir ''proj'' True [Dir ''a'' True [File ''x.py'' ''2'']]) 0 =
       Inr (''* **a/**'' @ nl @ ''  * x.py'')"
proof -
  have s: "scanned_scanner\<lparr>base_dir := Some [''/'', ''proj'']\<rparr> = scanned_scanner"
    by (simp add: scanned_scanner_def)
  have e: "\<not> has_listed_file ignore_nothing scanned_scanner [''/'', ''proj'', ''empty'']
         (Dir ''empty'' True [Dir ''inner'' True [File ''notes.txt'' ''n'']])"
    by (simp add: has_listed_file.simps scanned_scanner_def tree_ignored_def
          should_include_file_def path_defs Let_def)
  have a: "has_listed_file ignore_nothing scanned_scanner [''/'', ''proj'', ''a'']
         (Dir ''a'' True [File ''x.py'' ''2''])"
    by (simp add: has_listed_file.simps scanned_scanner_def tree_ignored_def
          should_include_file_def path_defs Let_def)
  have xs: "generate_structure ignore_nothing scanned_scanner [''/'', ''proj'', ''a'']
        (Dir ''a'' True [File ''x.py'' ''2'']) (0 + 1) = Inr ''  * x.py''"
    by (simp add: generate_structure.simps scanned_scanner_def tree_ignored_def
          should_include_file_def path_defs Let_def indent_def safe_name_def nl_def)
  have w: "without (empty_directory ignore_nothing scanned_scanner) [''/'', ''proj'']
        example_proj =
     Dir ''proj'' True
       [File ''a.py'' (''x=1'' @ [CHR 0x0D, CHR 0x0A]),
        File ''Makefile'' ''all:'',
        File ''.hidden.py'' ''h'',
        File ''bad.py'' [CHR 0xFF],
        Dir ''a-b'' True [File ''x.py'' ''1''],
        Dir ''a'' True [File ''x.py'' ''2'']]"
    by (simp add: example_proj_def empty_directory_def has_listed_file.simps
          scanned_scanner_def tree_ignored_def should_include_file_def path_defs Let_def)
  note t1 = empty_directory_omitted
      [where s = scanned_scanner and b = "[''/'', ''proj'']" and mf = ignore_nothing
         and path = "[''/'', ''proj'']" and node = example_proj and depth = 0
         and n = "''empty''" and l = True
         and es = "[Dir ''inner'' True [File ''notes.txt'' ''n'']]" and pn = "''proj''"
         and siblings = "[]" and entries = "[]", unfolded s Let_def]
  note t2 = empty_directory_omitted
      [where s = scanned_scanner and b = "[''/'', ''proj'']" and mf = ignore_nothing
         and path = "[''/'', ''proj'']" and node = example_proj and depth = 0
         and n = "''a''" and l = True
         and es = "[File ''x.py'' ''2'']" and pn = "''proj''"
         and siblings = "[]" and entries = "[]", unfolded s Let_def]
  have c1: "generate_structure ignore_nothing scanned_scanner [''/'', ''proj'']
         (without (empty_directory ignore_nothing scanned_scanner) [''/'', ''proj'']
            example_proj) 0 =
       generate_structure ignore_nothing scanned_scanner [''/'', ''proj''] example_proj 0"
    using t1 by (rule conjunct1)
  from t1 [THEN conjunct2, THEN conjunct2, THEN conjunct1] obtain sub where
    n1: "sub \<noteq> [] \<longleftrightarrow> has_listed_file ignore_nothing scanned_scanner
           ([''/'', ''proj''] @ [''empty''])
           (Dir ''empty'' True [Dir ''inner'' True [File ''notes.txt'' ''n'']])"
    and g1: "generate_structure ignore_nothing scanned_scanner [''/'', ''proj'']
         (Dir ''proj'' True [Dir ''empty'' True [Dir ''inner'' True [File ''notes.txt'' ''n'']]])
         0 =
       Inr (if \<not> startswith ''empty'' ''.''
               \<and> tree_ignored ignore_nothing scanned_scanner ([''/'', ''proj''] @ [''empty''])
                   = Inr False
               \<and> sub \<noteq> []
            then indent 0 @ ''* **'' @ safe_name ''empty'' @ ''/**'' @ nl @ sub else [])"
    by blast
  have "sub = []" using n1 e by simp
  then have c4: "generate_structure ignore_nothing scanned_scanner [''/'', ''proj'']
         (Dir ''proj'' True [Dir ''empty'' True [Dir ''inner'' True [File ''notes.txt'' ''n'']]])
         0 = Inr []"
    using g1 by simp
  from t2 [THEN conjunct2, THEN conjunct2, THEN conjunct1] obtain sub' where
    s2: "generate_structure ignore_nothing scanned_scanner ([''/'', ''proj''] @ [''a''])
           (Dir ''a'' True [File ''x.py'' ''2'']) (0 + 1) = Inr sub'"
    and g2: "generate_structure ignore_nothing scanned_scanner [''/'', ''proj'']
         (Dir ''proj'' True [Dir ''a'' True [File ''x.py'' ''2'']]) 0 =
       Inr (if \<not> startswith ''a'' ''.''
               \<and> tree_ignored ignore_nothing scanned_scanner ([''/'', ''proj''] @ [''a''])
                   = Inr False
               \<and> sub' \<noteq> []
            then indent 0 @ ''* **'' @ safe_name ''a'' @ ''/**'' @ nl @ sub' else [])"
    by blast
  have "sub' = ''  * x.py''" using s2 xs by simp
  then have c6: "generate_structure ignore_nothing scanned_scanner [''/'', ''proj'']
         (Dir ''proj'' True [Dir ''a'' True [File ''x.py'' ''2'']]) 0 =
       Inr (''* **a/**'' @ nl @ ''  * x.py'')"
    using g2
    by (simp add: startswith_def tree_ignored_def scanned_scanner_def indent_def
          safe_name_def)
  show ?thesis using w c1 e c4 a c6 by simp
qed

text \<open>
  The claim as the specification words it fails for a directory that the tree walker does not
  reach. The hidden directory \<open>.venv\<close> and the ignored directory \<open>build\<close> each have a
  rendering that is not empty, yet the rendering of their parent has no line at all.
\<close>

theorem directory_line_claim_counterexample:
  "generate_structure ignore_build tools_scanner [''/'', ''tools'', ''.venv'']
       (Dir ''.venv'' True [File ''run.py'' ''r'']) 1 = Inr ''  * run.py''
   \<and> generate_structure ignore_build tools_scanner [''/'', ''tools'', ''build'']
       (Dir ''build'' True [File ''gen.py'' ''g'']) 1 = Inr ''  * gen.py''
   \<and> generate_structure ignore_build tools_scanner [''/'', ''tools''] example_tools 0 = Inr []"
  by (simp add: generate_structure.simps example_tools_def tools_scanner_def ignore_build_def
        tree_ignored_def should_include_file_def path_defs Let_def indent_def safe_name_def
        nl_def)

section \<open>Enumeration of a tree\<close>

lemma rglob_below:
  "q \<in> fst ` set (rglob p t) \<Longrightarrow> \<exists>r. r \<noteq> [] \<and> q = p @ r"
proof (induction p t arbitrary: q rule: rglob.induct)
  case (1 path n bs)
  then show ?case by simp
next
  case (2 path n listable es)
  show ?case
  proof (cases listable)
    case False
    then show ?thesis using "2.prems" by simp
  next
    case True
    from "2.prems" True consider
      (child) e where "e \<in> set es" "q = path @ [node_name e]"
      | (deep) e where "e \<in> set es" "q \<in> fst ` set (rglob (path @ [node_name e]) e)"
      by auto
    then show ?thesis
    proof cases
      case child
      then show ?thesis by blast
    next
      case deep
      then obtain r where "r \<noteq> []" "q = (path @ [node_name e]) @ r"
        using "2.IH" [OF True deep(1)] by blast
      then show ?thesis by auto
    qed
  qed
qed

lemma rglob_below_child:
  "q \<in> fst ` set (rglob (p @ [nm]) t) \<Longrightarrow> \<exists>r. r \<noteq> [] \<and> q = p @ nm # r"
  using rglob_below [of q "p @ [nm]" t] by auto

lemma distinct_child_paths:
  "distinct (map node_name es) \<Longrightarrow> distinct (map (\<lambda>e. p @ [node_name e]) es)"
  by (induction es) auto

lemma rglob_distinct:
  "wf_root t \<Longrightarrow> distinct (map fst (rglob p t))"
proof (induction p t rule: rglob.induct)
  case (1 path n bs)
  then show ?case by simp
next
  case (2 path n listable es)
  show ?case
  proof (cases listable)
    case False
    then show ?thesis by simp
  next
    case True
    have names: "distinct (map node_name es)" using "2.prems" by simp
    have sub: "distinct (map fst (rglob (path @ [node_name e]) e))" if "e \<in> set es" for e
    proof -
      have "wf_node e" using "2.prems" that by simp
      then have "wf_root e" by (cases e) simp_all
      then show ?thesis using "2.IH" [OF True that] by simp
    qed
    have deep: "distinct (map fst (concat (map (\<lambda>e. rglob (path @ [node_name e]) e) es)))"
      using names sub
    proof (induction es)
      case Nil
      then show ?case by simp
    next
      case (Cons e es)
      have d1: "distinct (map fst (rglob (path @ [node_name e]) e))" using Cons.prems by simp
      have d2: "distinct (map fst (concat (map (\<lambda>e. rglob (path @ [node_name e]) e) es)))"
        using Cons by simp
      have disj: "fst ` set (rglob (path @ [node_name e]) e)
            \<inter> fst ` set (concat (map (\<lambda>e. rglob (path @ [node_name e]) e) es)) = {}"
      proof (rule ccontr)
        assume "\<not> ?thesis"
        then obtain q e' where q1: "q \<in> fst ` set (rglob (path @ [node_name e]) e)"
          and e': "e' \<in> set es" and q2: "q \<in> fst ` set (rglob (path @ [node_name e']) e')"
          by auto
        obtain r where "q = path @ node_name e # r" using rglob_below_child [OF q1] by blast
        moreover obtain r' where "q = path @ node_name e' # r'"
          using rglob_below_child [OF q2] by blast
        ultimately have "node_name e = node_name e'" by simp
        then show False using Cons.prems(1) e' by auto
      qed
      show ?case using d1 d2 disj by simp
    qed
    have kids: "distinct (map fst (map (\<lambda>e. (path @ [node_name e], e)) es))"
      using distinct_child_paths [OF names, of path] by (simp add: comp_def)
    have apart: "fst ` set (map (\<lambda>e. (path @ [node_name e], e)) es)
          \<inter> fst ` set (concat (map (\<lambda>e. rglob (path @ [node_name e]) e) es)) = {}"
    proof (rule ccontr)
      assume "\<not> ?thesis"
      then obtain q where a: "q \<in> fst ` set (map (\<lambda>e. (path @ [node_name e], e)) es)"
        and b: "q \<in> fst ` set (concat (map (\<lambda>e. rglob (path @ [node_name e]) e) es))"
        by blast
      from a obtain e where "e \<in> set es" "q = path @ [node_name e]" by auto
      moreover from b obtain e' where "e' \<in> set es"
        and q2: "q \<in> fst ` set (rglob (path @ [node_name e']) e')"
        by auto
      moreover obtain r' where "r' \<noteq> []" "q = path @ node_name e' # r'"
        using rglob_below_child [OF q2] by blast
      ultimately show False by simp
    qed
    show ?thesis using True kids deep apart by (simp add: image_image comp_def)
  qed
qed

lemma glob_subset_rglob: "set (glob p t) \<subseteq> set (rglob p t)"
  by (cases t) auto

lemma glob_distinct: "wf_root t \<Longrightarrow> distinct (map fst (glob p t))"
  by (cases t) (simp_all add: comp_def distinct_child_paths)

lemma enumeration_distinct:
  "wf_root t \<Longrightarrow> distinct (map fst (if recursive then rglob p t else glob p t))"
  by (simp add: rglob_distinct glob_distinct)





lemma set_code_files:
  "set (code_files mf s files) =
     {f \<in> set files. is_file (snd f) \<and> should_include_file mf s (fst f)}"
  by (auto simp: code_files_def)

lemma sorted_code_files: "sorted (map fst (code_files mf s files))"
  by (simp add: code_files_def)


lemma code_files_order_independent:
  assumes "mset (filter (\<lambda>f. is_file (snd f)) files') = mset (filter (\<lambda>f. is_file (snd f)) files)"
    and "distinct (map fst files)"
  shows "code_files mf s files' = code_files mf s files"
proof -
  let ?Q = "\<lambda>f. is_file (snd f) \<and> should_include_file mf s (fst f)"
  have split: "filter ?Q xs = filter (\<lambda>f. should_include_file mf s (fst f)) (filter (\<lambda>f. is_file (snd f)) xs)"
    for xs :: "(path \<times> node) list"
    by (simp add: conj_commute)
  have m: "mset (filter ?Q files') = mset (filter ?Q files)"
    unfolding split mset_filter using assms(1) by simp
  have "inj_on fst (set files)" using assms(2) by (simp add: distinct_map)
  moreover have "set (filter ?Q files') \<subseteq> set files"
    using m [THEN mset_eq_setD] by auto
  ultimately have "inj_on fst (set (filter ?Q files'))" by (rule inj_on_subset)
  then show ?thesis unfolding code_files_def using m by (rule sort_key_eq_sort_key [rotated])
qed

section \<open>The blocks of a scan\<close>

lemma append_le_append: "(p @ a \<le> p @ b) = (a \<le> (b :: 'a :: linorder list))"
  by (induction p) simp_all

lemma set_map_filter: "set (List.map_filter g xs) = {y. \<exists>x \<in> set xs. g x = Some y}"
  by (induction xs) (auto simp: List.map_filter_simps split: option.splits)

lemma read_block_Some:
  "read_block dp f = Some b \<Longrightarrow>
   fst f = dp @ fst b \<and> fst (snd b) = lstrip_dot (path_suffix (fst f))
   \<and> read_text (snd f) = Some (snd (snd b))"
  by (auto simp: read_block_def relative_to_def prefix_def split: option.splits if_splits)

lemma sorted_map_filter_rel:
  assumes "sorted (map fst xs)"
    and "\<And>x y. x \<in> set xs \<Longrightarrow> g x = Some y \<Longrightarrow> fst x = dp @ fst y"
  shows "sorted (map fst (List.map_filter g xs))"
  using assms
proof (induction xs)
  case Nil
  then show ?case by (simp add: List.map_filter_simps)
next
  case (Cons x xs)
  have IH: "sorted (map fst (List.map_filter g xs))" using Cons by simp
  show ?case
  proof (cases "g x")
    case None
    then show ?thesis using IH by (simp add: List.map_filter_simps)
  next
    case (Some y)
    have "fst y \<le> fst z" if "z \<in> set (List.map_filter g xs)" for z
    proof -
      from that obtain x' where x': "x' \<in> set xs" "g x' = Some z"
        by (auto simp: set_map_filter)
      then have "fst x \<le> fst x'" using Cons.prems(1) by auto
      moreover have "fst x = dp @ fst y" using Cons.prems(2) Some by simp
      moreover have "fst x' = dp @ fst z" using Cons.prems(2) x' by simp
      ultimately show ?thesis by (simp add: append_le_append)
    qed
    then show ?thesis using IH Some by (simp add: List.map_filter_simps)
  qed
qed


lemma sorted_scan_blocks: "sorted (map fst (scan_blocks mf s dp root recursive))"
  unfolding scan_blocks_def
  by (rule sorted_map_filter_rel [OF sorted_code_files]) (simp add: read_block_Some)





section \<open>The blocks of the example\<close>

lemma example_proj_wf: "wf_root example_proj"
  by (simp add: example_proj_def valid_name_def)

lemma example_code_files:
  "code_files ignore_nothing scanned_scanner (rglob [''/'', ''proj''] example_proj) =
     [([''/'', ''proj'', ''.hidden.py''], File ''.hidden.py'' ''h''),
      ([''/'', ''proj'', ''a'', ''x.py''], File ''x.py'' ''2''),
      ([''/'', ''proj'', ''a-b'', ''x.py''], File ''x.py'' ''1''),
      ([''/'', ''proj'', ''a.py''], File ''a.py'' (''x=1'' @ [CHR 0x0D, CHR 0x0A])),
      ([''/'', ''proj'', ''bad.py''], File ''bad.py'' [CHR 0xFF])]"
  by (simp add: code_files_def example_proj_def scanned_scanner_def should_include_file_def
        path_defs Let_def)

lemma example_blocks:
  "scan_blocks ignore_nothing scanned_scanner [''/'', ''proj''] example_proj True =
     [([''.hidden.py''], ''py'', ''h''),
      ([''a'', ''x.py''], ''py'', ''2''),
      ([''a-b'', ''x.py''], ''py'', ''1''),
      ([''a.py''], ''py'', ''x=1'' @ [CHR 0x0A])]"
  unfolding scan_blocks_def
  by (simp add: example_code_files)
     (simp add: List.map_filter_simps read_block_def path_defs Let_def)


section \<open>Files that a scan leaves out\<close>

lemma rglob_file: "is_file node \<Longrightarrow> rglob p node = []"
  by (cases node) simp_all

lemma filter_children_without:
  assumes "\<And>e. e \<in> set es \<Longrightarrow> gone (k e) e \<Longrightarrow> is_file e \<and> \<not> inc (k e)"
  shows "filter (\<lambda>f. is_file (snd f) \<and> inc (fst f))
           (map (\<lambda>e. (k e, without gone (k e) e)) (filter (\<lambda>e. \<not> gone (k e) e) es)) =
         filter (\<lambda>f. is_file (snd f) \<and> inc (fst f)) (map (\<lambda>e. (k e, e)) es)"
  using assms by (induction es) (auto simp: without_file)

lemma concat_filter_gone:
  assumes "\<And>e. e \<in> set es \<Longrightarrow> \<not> K e \<Longrightarrow> g e = []"
  shows "concat (map g (filter K es)) = concat (map g es)"
  using assms by (induction es) auto

lemma filter_rglob_without:
  assumes gone: "\<And>q e. gone (q @ [node_name e]) e \<Longrightarrow> is_file e \<and> \<not> inc (q @ [node_name e])"
  shows "filter (\<lambda>f. is_file (snd f) \<and> inc (fst f)) (rglob path (without gone path node)) =
         filter (\<lambda>f. is_file (snd f) \<and> inc (fst f)) (rglob path node)"
proof (induction path node rule: rglob.induct)
  case (1 path n bs)
  then show ?case by simp
next
  case (2 path n listable es)
  let ?Q = "\<lambda>f. is_file (snd f) \<and> inc (fst f)"
  let ?k = "\<lambda>e. path @ [node_name e]"
  let ?K = "\<lambda>e. \<not> gone (?k e) e"
  show ?case
  proof (cases listable)
    case False
    then show ?thesis by simp
  next
    case True
    have kids: "filter ?Q (map (\<lambda>e. (?k e, without gone (?k e) e)) (filter ?K es)) =
        filter ?Q (map (\<lambda>e. (?k e, e)) es)"
      by (rule filter_children_without) (use gone in blast)
    have "map (\<lambda>e. filter ?Q (rglob (?k e) (without gone (?k e) e))) (filter ?K es) =
        map (\<lambda>e. filter ?Q (rglob (?k e) e)) (filter ?K es)"
      by (rule map_cong) (use "2.IH" [OF True] in auto)
    then have "concat (map (\<lambda>e. filter ?Q (rglob (?k e) (without gone (?k e) e))) (filter ?K es)) =
        concat (map (\<lambda>e. filter ?Q (rglob (?k e) e)) (filter ?K es))"
      by (rule arg_cong)
    also have "\<dots> = concat (map (\<lambda>e. filter ?Q (rglob (?k e) e)) es)"
      by (rule concat_filter_gone) (use gone in \<open>simp add: rglob_file\<close>)
    finally have deep:
      "concat (map (\<lambda>e. filter ?Q (rglob (?k e) (without gone (?k e) e))) (filter ?K es)) =
        concat (map (\<lambda>e. filter ?Q (rglob (?k e) e)) es)" .
    show ?thesis using True kids deep by (simp add: filter_concat comp_def)
  qed
qed

lemma filter_glob_without:
  assumes gone: "\<And>q e. gone (q @ [node_name e]) e \<Longrightarrow> is_file e \<and> \<not> inc (q @ [node_name e])"
  shows "filter (\<lambda>f. is_file (snd f) \<and> inc (fst f)) (glob path (without gone path node)) =
         filter (\<lambda>f. is_file (snd f) \<and> inc (fst f)) (glob path node)"
proof (cases node)
  case (File n bs)
  then show ?thesis by simp
next
  case (Dir n listable es)
  have "filter (\<lambda>f. is_file (snd f) \<and> inc (fst f))
           (map (\<lambda>e. (path @ [node_name e], without gone (path @ [node_name e]) e))
              (filter (\<lambda>e. \<not> gone (path @ [node_name e]) e) es)) =
         filter (\<lambda>f. is_file (snd f) \<and> inc (fst f)) (map (\<lambda>e. (path @ [node_name e], e)) es)"
    by (rule filter_children_without) (use gone in blast)
  then show ?thesis using Dir by (simp add: comp_def)
qed

lemma scan_blocks_without:
  assumes gone: "\<And>q e. gone (q @ [node_name e]) e \<Longrightarrow>
      is_file e \<and> \<not> should_include_file mf s (q @ [node_name e])"
  shows "scan_blocks mf s path (without gone path node) recursive =
         scan_blocks mf s path node recursive"
  unfolding scan_blocks_def code_files_def
  using filter_rglob_without [of gone "should_include_file mf s" path node, OF gone]
    filter_glob_without [of gone "should_include_file mf s" path node, OF gone]
  by simp

lemma path_name_child: "CHR ''.'' \<notin> set n \<Longrightarrow> CHR ''.'' \<notin> set (path_name (p @ [n]))"
  by (simp add: path_name_def)

lemma extensionless_not_included:
  "[] \<notin> extensions s \<Longrightarrow> CHR ''.'' \<notin> set (path_name p) \<Longrightarrow> \<not> should_include_file mf s p"
  by (simp add: should_include_file_def path_suffix_no_dot lstrip_dot_def)

lemma extensionless_file_path:
  "extensionless_file p e \<Longrightarrow> CHR ''.'' \<notin> set (path_name (q @ [node_name e]))"
  by (simp add: extensionless_file_def path_name_child)

lemma item_structure_extensionless:
  assumes "[] \<notin> extensions s" "base_dir s = Some b"
    "extensionless_file (path @ [node_name e]) e"
  shows "item_structure mf s path depth e = Inr []"
proof -
  have f: "\<not> is_dir e" using assms(3) by (cases e) (simp_all add: extensionless_file_def)
  have "\<not> should_include_file mf s (path @ [node_name e])"
    using extensionless_not_included [OF assms(1)] extensionless_file_path [OF assms(3)]
    by blast
  moreover obtain ig where "tree_ignored mf s (path @ [node_name e]) = Inr ig"
    using tree_ignored_total [OF assms(2)] by blast
  ultimately show ?thesis using f by (cases ig) (simp_all add: item_structure_def)
qed

lemma scan_directory_root:
  "lookup fs (Path_of directory) = Some root \<Longrightarrow>
   scan_directory fs mf s directory recursive =
     (let s' = s\<lparr>base_dir := Some (resolve fs (Path_of directory))\<rparr> in
      case (if \<not> no_structure s' then
              (case generate_structure mf s' (Path_of directory) root 0 of
                 Inl e \<Rightarrow> Inl e
               | Inr dir_structure \<Rightarrow>
                   Inr ([''# Repository Structure'']
                        @ (if dir_structure \<noteq> [] then [dir_structure] else [])
                        @ [[]]))
            else Inr []) of
        Inl e \<Rightarrow> (Inl e, s')
      | Inr merged_content \<Rightarrow>
          (Inr (join nl
                  (merged_content
                   @ concat (map block_lines
                               (scan_blocks mf s' (Path_of directory) root recursive)))),
           s'))"
  by (simp add: scan_directory_def Let_def)

lemma scan_directory_same_root:
  assumes "lookup fs (Path_of directory) = Some root"
    "lookup fs' (Path_of directory) = Some root'"
    "cwd fs' = cwd fs"
    "\<And>t. generate_structure mf (s\<lparr>base_dir := Some t\<rparr>) (Path_of directory) root' 0 =
          generate_structure mf (s\<lparr>base_dir := Some t\<rparr>) (Path_of directory) root 0"
    "\<And>t. scan_blocks mf (s\<lparr>base_dir := Some t\<rparr>) (Path_of directory) root' recursive =
          scan_blocks mf (s\<lparr>base_dir := Some t\<rparr>) (Path_of directory) root recursive"
  shows "scan_directory fs' mf s directory recursive = scan_directory fs mf s directory recursive"
proof -
  have r: "resolve fs' (Path_of directory) = resolve fs (Path_of directory)"
    using assms(3) by (simp add: resolve_def)
  show ?thesis
    unfolding scan_directory_root [OF assms(1)] scan_directory_root [OF assms(2)] r Let_def
      assms(4) assms(5) ..
qed

lemma scan_directory_output:
  assumes "lookup fs (Path_of directory) = Some root" "is_dir root"
  shows "\<exists>tree. generate_structure mf (s\<lparr>base_dir := Some (resolve fs (Path_of directory))\<rparr>)
              (Path_of directory) root 0 = Inr tree
     \<and> fst (scan_directory fs mf s directory recursive) =
         Inr (join nl
                ((if no_structure s then []
                  else [''# Repository Structure''] @ (if tree \<noteq> [] then [tree] else [])
                       @ [[]])
                 @ concat (map block_lines
                     (scan_blocks mf (s\<lparr>base_dir := Some (resolve fs (Path_of directory))\<rparr>)
                        (Path_of directory) root recursive))))"
proof -
  let ?s = "s\<lparr>base_dir := Some (resolve fs (Path_of directory))\<rparr>"
  have "base_dir ?s = Some (resolve fs (Path_of directory))" by simp
  then obtain tree where
    tree: "generate_structure mf ?s (Path_of directory) root 0 = Inr tree"
    using generate_structure_total [OF _ assms(2)] by blast
  show ?thesis
    using tree by (simp add: scan_directory_root [OF assms(1)] Let_def)
qed

section \<open>The output of a scan\<close>

lemma scan_directory_scan_output:
  assumes "lookup fs (Path_of directory) = Some root" "is_dir root"
  shows "\<exists>tree. generate_structure mf (scanning fs s directory) (Path_of directory) root 0 = Inr tree
     \<and> fst (scan_directory fs mf s directory recursive) =
         Inr (scan_output s tree
                (scan_blocks mf (scanning fs s directory) (Path_of directory) root recursive))"
  using scan_directory_output [OF assms, of mf s recursive]
  by (simp add: scanning_def scan_output_def)








section \<open>Files without an extension\<close>

lemma default_extensions_init: "[] \<notin> extensions (init fs None ep ee gf ig)"
  by (simp add: init_def load_gitignore_def Let_def default_extensions_def)

lemma extensionless_blocks:
  "[] \<notin> extensions s \<Longrightarrow>
   scan_blocks mf s path (without extensionless_file path node) recursive =
   scan_blocks mf s path node recursive"
proof (rule scan_blocks_without)
  fix q e
  assume "[] \<notin> extensions s" and e: "extensionless_file (q @ [node_name e]) e"
  then show "is_file e \<and> \<not> should_include_file mf s (q @ [node_name e])"
    using extensionless_not_included [of s "q @ [node_name e]" mf]
      extensionless_file_path [OF e, of q]
    by (simp add: extensionless_file_def)
qed

lemma extensionless_tree:
  "[] \<notin> extensions s \<Longrightarrow>
   generate_structure mf (s\<lparr>base_dir := Some b\<rparr>) path
     (without extensionless_file path node) depth =
   generate_structure mf (s\<lparr>base_dir := Some b\<rparr>) path node depth"
  by (rule generate_structure_without) (rule item_structure_extensionless, simp_all)

lemma block_has_extension:
  assumes "blk \<in> set (scan_blocks mf s path node recursive)"
  shows "fst (snd blk) \<in> extensions s
     \<and> fst (snd blk) = lstrip_dot (path_suffix (path @ fst blk))
     \<and> ([] \<notin> extensions s \<longrightarrow> CHR ''.'' \<in> set (path_name (path @ fst blk)))"
proof -
  let ?files = "if recursive then rglob path node else glob path node"
  from assms obtain f where f: "f \<in> set (code_files mf s ?files)"
    and rb: "read_block path f = Some blk"
    unfolding scan_blocks_def set_map_filter by blast
  have p: "fst f = path @ fst blk" and tg: "fst (snd blk) = lstrip_dot (path_suffix (fst f))"
    using read_block_Some [OF rb] by simp_all
  have inc: "should_include_file mf s (fst f)" using f by (simp add: set_code_files)
  then have ext: "lstrip_dot (path_suffix (fst f)) \<in> extensions s"
    by (simp add: should_include_file_def split: if_splits)
  have "CHR ''.'' \<in> set (path_name (fst f))" if "[] \<notin> extensions s"
    using extensionless_not_included [OF that, of "fst f" mf] inc by blast
  then show ?thesis using p tg ext by simp
qed

text \<open>
  Claim C9. The scanner built without an \<open>extensions\<close> argument has the default set, which
  does not hold the empty string. A file whose name has no \<open>.\<close> has the empty extension, so
  \<open>should_include_file\<close> rejects it whenever the empty string is not an allowed extension, and
  the content walker does not keep it. Then such files appear nowhere: the rendered tree and the
  blocks of the content are those of the tree from which every file without a \<open>.\<close> in its
  name has been deleted at every depth, every block belongs to a file with a \<open>.\<close> in its
  name and is tagged with an allowed extension, and a scan of a file system returns what the
  scan of the file system without these files returns.
\<close>

theorem extensionless_file_excluded:
  "[] \<notin> extensions (init fsi None ep ee gf ig)
   \<and> (CHR ''.'' \<notin> set (path_name p) \<longrightarrow> [] \<notin> extensions s \<longrightarrow>
        \<not> should_include_file mf s p \<and> (p, n) \<notin> set (code_files mf s files))
   \<and> ([] \<notin> extensions s \<longrightarrow>
        generate_structure mf (s\<lparr>base_dir := Some b\<rparr>) path
            (without extensionless_file path node) depth =
          generate_structure mf (s\<lparr>base_dir := Some b\<rparr>) path node depth
        \<and> scan_blocks mf s path (without extensionless_file path node) recursive =
            scan_blocks mf s path node recursive
        \<and> (\<forall>blk \<in> set (scan_blocks mf s path node recursive).
             CHR ''.'' \<in> set (path_name (path @ fst blk)) \<and> fst (snd blk) \<in> extensions s)
        \<and> (lookup fs (Path_of directory) = Some node \<longrightarrow>
           lookup fs' (Path_of directory) =
             Some (without extensionless_file (Path_of directory) node) \<longrightarrow>
           cwd fs' = cwd fs \<longrightarrow>
           scan_directory fs' mf s directory recursive =
             scan_directory fs mf s directory recursive))"
proof -
  have a: "\<not> should_include_file mf s p \<and> (p, n) \<notin> set (code_files mf s files)"
    if "CHR ''.'' \<notin> set (path_name p)" "[] \<notin> extensions s"
    using extensionless_not_included [OF that(2,1), of mf] by (simp add: set_code_files)
  have b: "scan_directory fs' mf s directory recursive =
             scan_directory fs mf s directory recursive"
    if e: "[] \<notin> extensions s" and l: "lookup fs (Path_of directory) = Some node"
      and l': "lookup fs' (Path_of directory) =
             Some (without extensionless_file (Path_of directory) node)"
      and c: "cwd fs' = cwd fs"
  proof (rule scan_directory_same_root [OF l l' c])
    fix t
    show "generate_structure mf (s\<lparr>base_dir := Some t\<rparr>) (Path_of directory)
            (without extensionless_file (Path_of directory) node) 0 =
          generate_structure mf (s\<lparr>base_dir := Some t\<rparr>) (Path_of directory) node 0"
      by (rule extensionless_tree [OF e])
    show "scan_blocks mf (s\<lparr>base_dir := Some t\<rparr>) (Path_of directory)
            (without extensionless_file (Path_of directory) node) recursive =
          scan_blocks mf (s\<lparr>base_dir := Some t\<rparr>) (Path_of directory) node recursive"
      by (rule extensionless_blocks) (simp add: e)
  qed
  have c: "\<forall>blk \<in> set (scan_blocks mf s path node recursive).
             CHR ''.'' \<in> set (path_name (path @ fst blk)) \<and> fst (snd blk) \<in> extensions s"
    if "[] \<notin> extensions s"
    using block_has_extension [of _ mf s path node recursive] that by blast
  show ?thesis
    using default_extensions_init a b c extensionless_tree extensionless_blocks by blast
qed

lemma Path_of_proj: "Path_of ''/proj'' = [''/'', ''proj'']"
  by (simp add: Path_of_def startswith_def)

lemma example_lookup: "lookup example_fs (Path_of ''/proj'') = Some example_proj"
  by (simp add: Path_of_proj lookup_def is_absolute_def example_fs_def example_proj_def)

lemma plain_lookup:
  "lookup plain_fs (Path_of ''/proj'') =
     Some (without extensionless_file (Path_of ''/proj'') example_proj)"
  by (simp add: Path_of_proj lookup_def is_absolute_def plain_fs_def example_proj_def
        extensionless_file_def)

theorem extensionless_file_excluded_witness:
  "CHR ''.'' \<notin> set (path_name [''/'', ''proj'', ''Makefile''])
   \<and> [] \<notin> extensions (init example_fs None None None None True)
   \<and> \<not> should_include_file ignore_nothing (init example_fs None None None None True)
         [''/'', ''proj'', ''Makefile'']
   \<and> lookup example_fs (Path_of ''/proj'') = Some example_proj
   \<and> lookup plain_fs (Path_of ''/proj'') =
       Some (without extensionless_file (Path_of ''/proj'') example_proj)
   \<and> cwd plain_fs = cwd example_fs
   \<and> scan_directory plain_fs ignore_nothing (init example_fs None None None None True)
         ''/proj'' True =
       scan_directory example_fs ignore_nothing (init example_fs None None None None True)
         ''/proj'' True"
  using extensionless_file_excluded
    [where fsi = example_fs and ep = None and ee = None and gf = None and ig = True
       and p = "[''/'', ''proj'', ''Makefile'']"
       and s = "init example_fs None None None None True" and mf = ignore_nothing
       and fs = example_fs and directory = "''/proj''" and node = example_proj
       and fs' = plain_fs and recursive = True]
  by (simp add: example_lookup plain_lookup path_name_def is_absolute_def)
     (simp add: plain_fs_def example_fs_def)

section \<open>The content of a scan\<close>







text \<open>
  Claim C6, as the code has it. The output of a scan of a directory is the structure section
  followed by the blocks. The files are sorted before they are read, and the blocks come
  sorted by relative path, in the order of \<open>Path\<close> objects: paths are compared component by
  component, and two components are compared as strings, character by character. Whatever the
  order in which the entries are enumerated, the blocks are the same: any list that holds the
  same regular files as the enumeration gives the blocks of the scan.
\<close>

theorem blocks_sorted_by_path_components:
  assumes "lookup fs (Path_of directory) = Some root"
    and "is_dir root"
  shows "(\<exists>tree.
            generate_structure mf (scanning fs s directory) (Path_of directory) root 0 = Inr tree
            \<and> fst (scan_directory fs mf s directory recursive) =
                Inr (scan_output s tree
                       (scan_blocks mf (scanning fs s directory) (Path_of directory) root
                          recursive)))
     \<and> sorted (map fst
          (code_files mf (scanning fs s directory)
             (if recursive then rglob (Path_of directory) root
              else glob (Path_of directory) root)))
     \<and> sorted (map fst
          (scan_blocks mf (scanning fs s directory) (Path_of directory) root recursive))
     \<and> (wf_root root \<longrightarrow>
          mset (filter (\<lambda>f. is_file (snd f)) files') =
            mset (filter (\<lambda>f. is_file (snd f))
                    (if recursive then rglob (Path_of directory) root
                     else glob (Path_of directory) root)) \<longrightarrow>
          List.map_filter (read_block (Path_of directory))
              (code_files mf (scanning fs s directory) files') =
            scan_blocks mf (scanning fs s directory) (Path_of directory) root recursive)"
proof -
  have indep: "List.map_filter (read_block (Path_of directory))
              (code_files mf (scanning fs s directory) files') =
            scan_blocks mf (scanning fs s directory) (Path_of directory) root recursive"
    if wf: "wf_root root"
      and m: "mset (filter (\<lambda>f. is_file (snd f)) files') =
            mset (filter (\<lambda>f. is_file (snd f))
                    (if recursive then rglob (Path_of directory) root
                     else glob (Path_of directory) root))"
    using code_files_order_independent [OF m enumeration_distinct [OF wf]]
    by (simp add: scan_blocks_def)
  show ?thesis
    using scan_directory_scan_output [OF assms, of mf s recursive]
      sorted_code_files sorted_scan_blocks indep
    by blast
qed


section \<open>The scans of the examples\<close>

lemma example_scanning: "scanning example_fs scanned_scanner ''/proj'' = scanned_scanner"
  by (simp add: scanning_def Path_of_proj resolve_def is_absolute_def scanned_scanner_def)

lemma example_tree:
  "generate_structure ignore_nothing scanned_scanner [''/'', ''proj''] example_proj 0 =
     Inr (''* **a/**'' @ nl @ ''  * x.py'' @ nl @ ''* **a-b/**'' @ nl @ ''  * x.py'' @ nl
          @ ''* a.py'' @ nl @ ''* bad.py'')"
  by (simp add: generate_structure.simps example_proj_def scanned_scanner_def tree_ignored_def
        should_include_file_def path_defs Let_def indent_def safe_name_def split_nl_def nl_def)

lemma example_scan:
  "fst (scan_directory example_fs ignore_nothing scanned_scanner ''/proj'' True) =
     Inr (scan_output scanned_scanner
            (''* **a/**'' @ nl @ ''  * x.py'' @ nl @ ''* **a-b/**'' @ nl @ ''  * x.py'' @ nl
             @ ''* a.py'' @ nl @ ''* bad.py'')
            [([''.hidden.py''], ''py'', ''h''),
             ([''a'', ''x.py''], ''py'', ''2''),
             ([''a-b'', ''x.py''], ''py'', ''1''),
             ([''a.py''], ''py'', ''x=1'' @ [CHR 0x0A])])"
proof -
  have d: "is_dir example_proj" by (simp add: example_proj_def)
  show ?thesis
    using scan_directory_scan_output [OF example_lookup d, of ignore_nothing scanned_scanner True]
    unfolding example_scanning Path_of_proj example_tree example_blocks
    by simp
qed









section \<open>The claims on the examples\<close>





theorem blocks_sorted_by_path_components_witness:
  "lookup example_fs (Path_of ''/proj'') = Some example_proj
   \<and> is_dir example_proj
   \<and> wf_root example_proj
   \<and> sorted (map fst
        (scan_blocks ignore_nothing (scanning example_fs scanned_scanner ''/proj'')
           (Path_of ''/proj'') example_proj True))
   \<and> List.map_filter (read_block (Path_of ''/proj''))
        (code_files ignore_nothing (scanning example_fs scanned_scanner ''/proj'')
           (rev (rglob (Path_of ''/proj'') example_proj))) =
       scan_blocks ignore_nothing (scanning example_fs scanned_scanner ''/proj'')
         (Path_of ''/proj'') example_proj True"
proof -
  have d: "is_dir example_proj" by (simp add: example_proj_def)
  have m: "mset (filter (\<lambda>f. is_file (snd f)) (rev (rglob (Path_of ''/proj'') example_proj))) =
      mset (filter (\<lambda>f. is_file (snd f))
              (if True then rglob (Path_of ''/proj'') example_proj
               else glob (Path_of ''/proj'') example_proj))"
    by (simp add: rev_filter [symmetric])
  show ?thesis
    using blocks_sorted_by_path_components
      [OF example_lookup d, of ignore_nothing scanned_scanner True
         "rev (rglob (Path_of ''/proj'') example_proj)"]
      m d example_lookup example_proj_wf
    by blast
qed

text \<open>
  The claim as the specification words it fails when the paths are read as strings. In
  \<open>/proj\<close> the block of \<open>a/x.py\<close> comes before the block of \<open>a-b/x.py\<close>, because the
  component \<open>a\<close> is a prefix of the component \<open>a-b\<close>; as strings the two paths are in the
  other order, because \<open>-\<close> comes before \<open>/\<close>. The same holds of the full paths of the
  files that are read.
\<close>

theorem string_order_counterexample:
  "fst (scan_directory example_fs ignore_nothing scanned_scanner ''/proj'' True) =
       Inr (scan_output scanned_scanner
              (''* **a/**'' @ nl @ ''  * x.py'' @ nl @ ''* **a-b/**'' @ nl @ ''  * x.py'' @ nl
               @ ''* a.py'' @ nl @ ''* bad.py'')
              [([''.hidden.py''], ''py'', ''h''),
               ([''a'', ''x.py''], ''py'', ''2''),
               ([''a-b'', ''x.py''], ''py'', ''1''),
               ([''a.py''], ''py'', ''x=1'' @ [CHR 0x0A])])
   \<and> map str_path [[''.hidden.py''], [''a'', ''x.py''], [''a-b'', ''x.py''], [''a.py'']] =
       [''.hidden.py'', ''a/x.py'', ''a-b/x.py'', ''a.py'']
   \<and> \<not> sorted [''.hidden.py'', ''a/x.py'', ''a-b/x.py'', ''a.py'']
   \<and> map (\<lambda>f. str_path (fst f))
         (code_files ignore_nothing scanned_scanner (rglob [''/'', ''proj''] example_proj)) =
       [''/proj/.hidden.py'', ''/proj/a/x.py'', ''/proj/a-b/x.py'', ''/proj/a.py'',
        ''/proj/bad.py'']
   \<and> \<not> sorted [''/proj/.hidden.py'', ''/proj/a/x.py'', ''/proj/a-b/x.py'', ''/proj/a.py'',
         ''/proj/bad.py'']"
  using example_scan by (simp add: example_code_files str_path_def)



end
